theory Spec2Isabelle
  imports Main "HOL-Library.Word" "HOL-Library.List_Lexorder"
begin

section \<open>Values that cross the language boundary\<close>

text \<open>
  A Java \<open>byte[]\<close>, a \<open>Slice\<close> and the contents of a \<open>std::string\<close> are all
  sequences of 8-bit values; the binding copies them bit for bit. A \<open>jint\<close> is a
  32-bit and a \<open>jlong\<close> a 64-bit machine integer; \<open>size_t\<close> is taken as 64 bits wide.
\<close>

type_synonym bytes = "8 word list"
type_synonym jint = "32 word"
type_synonym jlong = "64 word"
type_synonym size_t = "64 word"
type_synonym jobject = nat

section \<open>The engine's interface, as the binding uses it\<close>

text \<open>
  The headers \<open>leveldb/status.h\<close>, \<open>leveldb/options.h\<close>, \<open>leveldb/db.h\<close>,
  \<open>leveldb/iterator.h\<close> and \<open>leveldb/write_batch.h\<close> are included by the binding but
  are not part of the sources at hand. The kinds of a status are those of the error taxonomy
  of the design document; the option structures have the fields the binding assigns.
\<close>

datatype code = kOk | kNotFound | kCorruption | kInvalidArgument | kIOError

datatype status = Status code string

fun status_code :: "status \<Rightarrow> code" where
  "status_code (Status c m) = c"

definition ok :: "status \<Rightarrow> bool" where
  "ok s = (status_code s = kOk)"

definition IsNotFound :: "status \<Rightarrow> bool" where
  "IsNotFound s = (status_code s = kNotFound)"

definition IsCorruption :: "status \<Rightarrow> bool" where
  "IsCorruption s = (status_code s = kCorruption)"

definition IsInvalidArgument :: "status \<Rightarrow> bool" where
  "IsInvalidArgument s = (status_code s = kInvalidArgument)"

record WriteOptions =
  sync :: bool

record ReadOptions =
  verify_checksums :: bool
  fill_cache :: bool

text \<open>The Java callback object \<open>org.tron.leveldb.DBComparator\<close>: its four methods.\<close>

record DBComparator =
  jc_name :: string
  jc_compare :: "bytes \<Rightarrow> bytes \<Rightarrow> jint"
  jc_findShortestSeparator :: "bytes \<Rightarrow> bytes \<Rightarrow> bytes"
  jc_findShortSuccessor :: "bytes \<Rightarrow> bytes"

text \<open>
  \<open>class JavaComparator : public Comparator\<close> holds the global reference to the Java object
  and forwards each virtual method to it, copying the slices into fresh byte arrays.
\<close>

datatype JavaComparator = JavaComparator DBComparator

fun Compare :: "JavaComparator \<Rightarrow> bytes \<Rightarrow> bytes \<Rightarrow> jint" where
  "Compare (JavaComparator jobj) a b = jc_compare jobj a b"

fun Name :: "JavaComparator \<Rightarrow> string" where
  "Name (JavaComparator jobj) = jc_name jobj"

fun FindShortestSeparator :: "JavaComparator \<Rightarrow> bytes \<Rightarrow> bytes \<Rightarrow> bytes" where
  "FindShortestSeparator (JavaComparator jobj) start limit =
     jc_findShortestSeparator jobj start limit"

fun FindShortSuccessor :: "JavaComparator \<Rightarrow> bytes \<Rightarrow> bytes" where
  "FindShortSuccessor (JavaComparator jobj) k = jc_findShortSuccessor jobj k"

text \<open>\<open>class JavaLogger : public Logger\<close> holds the global reference to the Java logger.\<close>

datatype JavaLogger = JavaLogger jobject

record Options =
  create_if_missing :: bool
  error_if_exists :: bool
  paranoid_checks :: bool
  compression :: jint
  block_size :: size_t
  write_buffer_size :: size_t
  block_cache :: size_t
  max_open_files :: jint
  comparator :: "JavaComparator option"
  info_log :: "JavaLogger option"

text \<open>
  The engine the binding is linked against: one field for each function of the engine that
  the binding calls. \<open>'db\<close>, \<open>'it\<close> and \<open>'wb\<close> are the engine's \<open>DB\<close>, \<open>Iterator\<close> and
  \<open>WriteBatch\<close> objects and \<open>'fs\<close> is the storage that \<open>DB::Open\<close> reads. The three
  \<open>default_\<close> fields are the values the option structures have after default construction.
  \<open>Iterator_key\<close>, \<open>Iterator_value\<close>, \<open>Iterator_Next\<close> and \<open>Iterator_Prev\<close> require
  \<open>Iterator_Valid\<close>; what a call returns on an iterator that is not valid is outside the
  engine's contract.
\<close>

record ('db, 'it, 'wb, 'fs) engine =
  default_Options :: Options
  default_ReadOptions :: ReadOptions
  default_WriteOptions :: WriteOptions
  NewLRUCache :: "size_t \<Rightarrow> size_t"
  ToString :: "status \<Rightarrow> string"
  DB_Open :: "Options \<Rightarrow> string \<Rightarrow> 'fs \<Rightarrow> status \<times> 'db option"
  DB_Put :: "WriteOptions \<Rightarrow> bytes \<Rightarrow> bytes \<Rightarrow> 'db \<Rightarrow> status \<times> 'db"
  DB_Delete :: "WriteOptions \<Rightarrow> bytes \<Rightarrow> 'db \<Rightarrow> status \<times> 'db"
  DB_Write :: "WriteOptions \<Rightarrow> 'wb option \<Rightarrow> 'db \<Rightarrow> status \<times> 'db"
  DB_Get :: "ReadOptions \<Rightarrow> bytes \<Rightarrow> 'db \<Rightarrow> status \<times> bytes"
  DB_NewIterator :: "ReadOptions \<Rightarrow> 'db \<Rightarrow> 'it"
  DB_GetProperty :: "string \<Rightarrow> 'db \<Rightarrow> bool \<times> string"
  Iterator_Valid :: "'it \<Rightarrow> bool"
  Iterator_SeekToFirst :: "'it \<Rightarrow> 'it"
  Iterator_SeekToLast :: "'it \<Rightarrow> 'it"
  Iterator_Seek :: "bytes \<Rightarrow> 'it \<Rightarrow> 'it"
  Iterator_Next :: "'it \<Rightarrow> 'it"
  Iterator_Prev :: "'it \<Rightarrow> 'it"
  Iterator_key :: "'it \<Rightarrow> bytes"
  Iterator_value :: "'it \<Rightarrow> bytes"
  WriteBatch_new :: 'wb
  WriteBatch_Put :: "bytes \<Rightarrow> bytes \<Rightarrow> 'wb \<Rightarrow> 'wb"
  WriteBatch_Delete :: "bytes \<Rightarrow> 'wb \<Rightarrow> 'wb"

section \<open>The Java side\<close>

text \<open>
  The four exception classes the binding throws, and the outcome of a native method as the
  Java caller sees it: a returned value, a pending exception raised on return, or
  \<open>Aborted\<close> for a native method that calls the engine outside the engine's contract (an
  iterator read or moved while it is not valid), where no result is defined.
\<close>

datatype java_class =
  FileNotFoundException | IOException | RuntimeException | IllegalStateException

datatype java_exception = Exception java_class string

datatype 'a outcome = Returned 'a | Thrown java_exception | Aborted

text \<open>
  The fields of the Java objects that the native methods read and write. A native handle is
  a \<open>long\<close> holding a pointer, with 0 for no object; the object it points to is owned by
  exactly one Java object, so the handle is modelled as an optional value.
\<close>

record ('db) jDB =
  nativeDb :: "'db option"
  nativeComparator :: "JavaComparator option"
  nativeLogger :: "JavaLogger option"
  verifyChecksumsSet :: bool

record jOptions =
  createIfMissing :: bool
  paranoidChecks :: bool
  compressionType_persistentId :: jint
  blockSize :: jint
  writeBufferSize :: jint
  cacheSize :: jlong
  maxOpenFiles :: jint
  jcomparator :: "DBComparator option"
  jlogger :: "jobject option"

record jReadOptions =
  verifyChecksums :: bool
  fillCache :: bool

record ('it) jDBIterator =
  it_nativeHandle :: "'it option"

record ('wb) jWriteBatch =
  wb_nativeHandle :: "'wb option"

section \<open>The native methods of \<open>leveldbjni.cc\<close>\<close>

text \<open>
  \<open>c_str()\<close> of a \<open>std::string\<close> is read as a C string by its receiver, which ends it at
  the first NUL character: \<open>ThrowNew\<close> takes the message of the exception, and the engine
  the name of a property, up to there.
\<close>

definition c_str :: "string \<Rightarrow> string" where
  "c_str s = takeWhile (\<lambda>c. c \<noteq> CHR 0x00) s"

definition check :: "('db, 'it, 'wb, 'fs) engine \<Rightarrow> status \<Rightarrow> bool outcome" where
  "check eng st =
     (if ok st then Returned True
      else if IsNotFound st
      then Thrown (Exception FileNotFoundException (c_str (ToString eng st)))
      else if IsCorruption st
      then Thrown (Exception IOException (c_str (ToString eng st)))
      else Thrown (Exception RuntimeException (c_str (ToString eng st))))"

definition init_options :: "('db, 'it, 'wb, 'fs) engine \<Rightarrow> jOptions \<Rightarrow> Options" where
  "init_options eng joptions =
     (let options = (default_Options eng)\<lparr>
            create_if_missing := createIfMissing joptions,
            paranoid_checks := paranoidChecks joptions,
            compression := compressionType_persistentId joptions,
            block_size := scast (blockSize joptions),
            write_buffer_size := scast (writeBufferSize joptions),
            block_cache := NewLRUCache eng (cacheSize joptions),
            max_open_files := maxOpenFiles joptions\<rparr>;
          options = (case jcomparator joptions of
                       None \<Rightarrow> options
                     | Some c \<Rightarrow> options\<lparr>comparator := Some (JavaComparator c)\<rparr>);
          options = (case jlogger joptions of
                       None \<Rightarrow> options
                     | Some l \<Rightarrow> options\<lparr>info_log := Some (JavaLogger l)\<rparr>)
      in options)"

definition Java_org_tron_leveldb_DB_init ::
  "('db, 'it, 'wb, 'fs) engine \<Rightarrow> 'fs \<Rightarrow> 'db jDB \<Rightarrow> string \<Rightarrow> jOptions
     \<Rightarrow> unit outcome \<times> 'db jDB" where
  "Java_org_tron_leveldb_DB_init eng fs jdb jfile joptions =
     (let options = init_options eng joptions;
          jdb = (case jcomparator joptions of
                   None \<Rightarrow> jdb
                 | Some c \<Rightarrow> jdb\<lparr>nativeComparator := Some (JavaComparator c)\<rparr>);
          jdb = (case jlogger joptions of
                   None \<Rightarrow> jdb
                 | Some l \<Rightarrow> jdb\<lparr>nativeLogger := Some (JavaLogger l)\<rparr>);
          (st, db) = DB_Open eng options jfile fs
      in if IsInvalidArgument st
         then (Thrown (Exception FileNotFoundException (c_str (ToString eng st))), jdb)
         else (case check eng st of
                 Returned _ \<Rightarrow> (Returned (), jdb\<lparr>nativeDb := db\<rparr>)
               | Thrown e \<Rightarrow> (Thrown e, jdb)
               | Aborted \<Rightarrow> (Aborted, jdb)))"

definition getReadOptions :: "jReadOptions \<Rightarrow> ReadOptions" where
  "getReadOptions jread_options =
     \<lparr>verify_checksums = verifyChecksums jread_options,
      fill_cache = fillCache jread_options\<rparr>"

definition throw_not_open :: "'a outcome" where
  "throw_not_open = Thrown (Exception IllegalStateException ''DB is not open'')"

definition Java_org_tron_leveldb_DB_iterator ::
  "('db, 'it, 'wb, 'fs) engine \<Rightarrow> 'db jDB \<Rightarrow> jReadOptions
     \<Rightarrow> 'it jDBIterator outcome \<times> 'db jDB" where
  "Java_org_tron_leveldb_DB_iterator eng jdb jread_options =
     (case nativeDb jdb of
        None \<Rightarrow> (throw_not_open, jdb)
      | Some db \<Rightarrow>
          (Returned \<lparr>it_nativeHandle =
              Some (DB_NewIterator eng (getReadOptions jread_options) db)\<rparr>, jdb))"

definition Java_org_tron_leveldb_DB_close ::
  "('db, 'it, 'wb, 'fs) engine \<Rightarrow> 'db jDB \<Rightarrow> unit outcome \<times> 'db jDB" where
  "Java_org_tron_leveldb_DB_close eng jdb = (Returned (), jdb\<lparr>nativeDb := None\<rparr>)"

definition Java_org_tron_leveldb_DB_put___3B_3B ::
  "('db, 'it, 'wb, 'fs) engine \<Rightarrow> 'db jDB \<Rightarrow> bytes \<Rightarrow> bytes \<Rightarrow> unit outcome \<times> 'db jDB" where
  "Java_org_tron_leveldb_DB_put___3B_3B eng jdb k data =
     (case nativeDb jdb of
        None \<Rightarrow> (throw_not_open, jdb)
      | Some db \<Rightarrow>
          (let (st, db') = DB_Put eng (default_WriteOptions eng) k data db
           in (Returned (), jdb\<lparr>nativeDb := Some db'\<rparr>)))"

definition Java_org_tron_leveldb_DB_put___3B_3BZ ::
  "('db, 'it, 'wb, 'fs) engine \<Rightarrow> 'db jDB \<Rightarrow> bytes \<Rightarrow> bytes \<Rightarrow> bool
     \<Rightarrow> unit outcome \<times> 'db jDB" where
  "Java_org_tron_leveldb_DB_put___3B_3BZ eng jdb k data sync_arg =
     (case nativeDb jdb of
        None \<Rightarrow> (throw_not_open, jdb)
      | Some db \<Rightarrow>
          (let options = (default_WriteOptions eng)\<lparr>sync := sync_arg\<rparr>;
               (st, db') = DB_Put eng options k data db
           in (Returned (), jdb\<lparr>nativeDb := Some db'\<rparr>)))"

definition Java_org_tron_leveldb_DB_get ::
  "('db, 'it, 'wb, 'fs) engine \<Rightarrow> 'db jDB \<Rightarrow> bytes \<Rightarrow> bytes option outcome \<times> 'db jDB" where
  "Java_org_tron_leveldb_DB_get eng jdb k =
     (case nativeDb jdb of
        None \<Rightarrow> (throw_not_open, jdb)
      | Some db \<Rightarrow>
          (let options = (if verifyChecksumsSet jdb
                          then (default_ReadOptions eng)\<lparr>verify_checksums := True\<rparr>
                          else default_ReadOptions eng);
               (st, v) = DB_Get eng options k db
           in if IsNotFound st then (Returned None, jdb)
              else (case check eng st of
                      Returned _ \<Rightarrow> (Returned (Some v), jdb)
                    | Thrown e \<Rightarrow> (Thrown e, jdb)
                    | Aborted \<Rightarrow> (Aborted, jdb))))"

definition Java_org_tron_leveldb_DB_delete ::
  "('db, 'it, 'wb, 'fs) engine \<Rightarrow> 'db jDB \<Rightarrow> bytes \<Rightarrow> bool \<Rightarrow> unit outcome \<times> 'db jDB" where
  "Java_org_tron_leveldb_DB_delete eng jdb k sync_arg =
     (case nativeDb jdb of
        None \<Rightarrow> (throw_not_open, jdb)
      | Some db \<Rightarrow>
          (let options = (default_WriteOptions eng)\<lparr>sync := sync_arg\<rparr>;
               (st, db') = DB_Delete eng options k db
           in (Returned (), jdb\<lparr>nativeDb := Some db'\<rparr>)))"

definition Java_org_tron_leveldb_DB_createWriteBatch ::
  "('db, 'it, 'wb, 'fs) engine \<Rightarrow> 'db jDB \<Rightarrow> 'wb jWriteBatch outcome \<times> 'db jDB" where
  "Java_org_tron_leveldb_DB_createWriteBatch eng jdb =
     (case nativeDb jdb of
        None \<Rightarrow> (throw_not_open, jdb)
      | Some db \<Rightarrow> (Returned \<lparr>wb_nativeHandle = Some (WriteBatch_new eng)\<rparr>, jdb))"

definition Java_org_tron_leveldb_DB_write ::
  "('db, 'it, 'wb, 'fs) engine \<Rightarrow> 'db jDB \<Rightarrow> 'wb jWriteBatch \<Rightarrow> bool
     \<Rightarrow> unit outcome \<times> 'db jDB" where
  "Java_org_tron_leveldb_DB_write eng jdb jbatch sync_arg =
     (case nativeDb jdb of
        None \<Rightarrow> (throw_not_open, jdb)
      | Some db \<Rightarrow>
          (let options = (default_WriteOptions eng)\<lparr>sync := sync_arg\<rparr>;
               (st, db') = DB_Write eng options (wb_nativeHandle jbatch) db
           in (case check eng st of
                 Returned _ \<Rightarrow> (Returned (), jdb\<lparr>nativeDb := Some db'\<rparr>)
               | Thrown e \<Rightarrow> (Thrown e, jdb\<lparr>nativeDb := Some db'\<rparr>)
               | Aborted \<Rightarrow> (Aborted, jdb\<lparr>nativeDb := Some db'\<rparr>))))"

definition Java_org_tron_leveldb_DB_getProperty ::
  "('db, 'it, 'wb, 'fs) engine \<Rightarrow> 'db jDB \<Rightarrow> string \<Rightarrow> string outcome \<times> 'db jDB" where
  "Java_org_tron_leveldb_DB_getProperty eng jdb jname =
     (case nativeDb jdb of
        None \<Rightarrow> (throw_not_open, jdb)
      | Some db \<Rightarrow>
          (let (found, v) = DB_GetProperty eng (c_str jname) db
           in (Returned (c_str v), jdb)))"

definition throw_it_not_open :: "'a outcome" where
  "throw_it_not_open = Thrown (Exception IllegalStateException ''DB iterator is not open'')"

definition Java_org_tron_leveldb_DBIterator_close ::
  "('db, 'it, 'wb, 'fs) engine \<Rightarrow> 'it jDBIterator \<Rightarrow> unit outcome \<times> 'it jDBIterator" where
  "Java_org_tron_leveldb_DBIterator_close eng jiter =
     (Returned (), jiter\<lparr>it_nativeHandle := None\<rparr>)"

definition Java_org_tron_leveldb_DBIterator_seekToFirst ::
  "('db, 'it, 'wb, 'fs) engine \<Rightarrow> 'it jDBIterator \<Rightarrow> unit outcome \<times> 'it jDBIterator" where
  "Java_org_tron_leveldb_DBIterator_seekToFirst eng jiter =
     (case it_nativeHandle jiter of
        None \<Rightarrow> (throw_it_not_open, jiter)
      | Some iter \<Rightarrow>
          (Returned (), jiter\<lparr>it_nativeHandle := Some (Iterator_SeekToFirst eng iter)\<rparr>))"

definition Java_org_tron_leveldb_DBIterator_hasNext ::
  "('db, 'it, 'wb, 'fs) engine \<Rightarrow> 'it jDBIterator \<Rightarrow> bool outcome \<times> 'it jDBIterator" where
  "Java_org_tron_leveldb_DBIterator_hasNext eng jiter =
     (case it_nativeHandle jiter of
        None \<Rightarrow> (throw_it_not_open, jiter)
      | Some iter \<Rightarrow> (Returned (Iterator_Valid eng iter), jiter))"

definition Java_org_tron_leveldb_DBIterator_next ::
  "('db, 'it, 'wb, 'fs) engine \<Rightarrow> 'it jDBIterator
     \<Rightarrow> (bytes \<times> bytes) outcome \<times> 'it jDBIterator" where
  "Java_org_tron_leveldb_DBIterator_next eng jiter =
     (case it_nativeHandle jiter of
        None \<Rightarrow> (throw_it_not_open, jiter)
      | Some iter \<Rightarrow>
          if Iterator_Valid eng iter
          then (let key_array = Iterator_key eng iter;
                    value_array = Iterator_value eng iter
                in (Returned (key_array, value_array),
                    jiter\<lparr>it_nativeHandle := Some (Iterator_Next eng iter)\<rparr>))
          else (Aborted, jiter))"

definition Java_org_tron_leveldb_DBIterator_peekNext ::
  "('db, 'it, 'wb, 'fs) engine \<Rightarrow> 'it jDBIterator
     \<Rightarrow> (bytes \<times> bytes) outcome \<times> 'it jDBIterator" where
  "Java_org_tron_leveldb_DBIterator_peekNext eng jiter =
     (case it_nativeHandle jiter of
        None \<Rightarrow> (throw_it_not_open, jiter)
      | Some iter \<Rightarrow>
          if Iterator_Valid eng iter
          then (let key_array = Iterator_key eng iter;
                    value_array = Iterator_value eng iter
                in (Returned (key_array, value_array), jiter))
          else (Aborted, jiter))"

definition Java_org_tron_leveldb_DBIterator_seekToLast ::
  "('db, 'it, 'wb, 'fs) engine \<Rightarrow> 'it jDBIterator \<Rightarrow> unit outcome \<times> 'it jDBIterator" where
  "Java_org_tron_leveldb_DBIterator_seekToLast eng jiter =
     (case it_nativeHandle jiter of
        None \<Rightarrow> (throw_it_not_open, jiter)
      | Some iter \<Rightarrow>
          (Returned (), jiter\<lparr>it_nativeHandle := Some (Iterator_SeekToLast eng iter)\<rparr>))"

definition Java_org_tron_leveldb_DBIterator_hasPrev ::
  "('db, 'it, 'wb, 'fs) engine \<Rightarrow> 'it jDBIterator \<Rightarrow> bool outcome \<times> 'it jDBIterator" where
  "Java_org_tron_leveldb_DBIterator_hasPrev eng jiter =
     (case it_nativeHandle jiter of
        None \<Rightarrow> (throw_it_not_open, jiter)
      | Some iter \<Rightarrow> (Returned (Iterator_Valid eng iter), jiter))"

definition Java_org_tron_leveldb_DBIterator_prev ::
  "('db, 'it, 'wb, 'fs) engine \<Rightarrow> 'it jDBIterator \<Rightarrow> unit outcome \<times> 'it jDBIterator" where
  "Java_org_tron_leveldb_DBIterator_prev eng jiter =
     (case it_nativeHandle jiter of
        None \<Rightarrow> (throw_it_not_open, jiter)
      | Some iter \<Rightarrow>
          if Iterator_Valid eng iter
          then (Returned (), jiter\<lparr>it_nativeHandle := Some (Iterator_Prev eng iter)\<rparr>)
          else (Aborted, jiter))"

definition Java_org_tron_leveldb_DBIterator_peekPrev ::
  "('db, 'it, 'wb, 'fs) engine \<Rightarrow> 'it jDBIterator
     \<Rightarrow> (bytes \<times> bytes) outcome \<times> 'it jDBIterator" where
  "Java_org_tron_leveldb_DBIterator_peekPrev eng jiter =
     (case it_nativeHandle jiter of
        None \<Rightarrow> (throw_it_not_open, jiter)
      | Some iter \<Rightarrow>
          if Iterator_Valid eng iter
          then (let key_array = Iterator_key eng iter;
                    value_array = Iterator_value eng iter
                in (Returned (key_array, value_array), jiter))
          else (Aborted, jiter))"

definition Java_org_tron_leveldb_DBIterator_seek ::
  "('db, 'it, 'wb, 'fs) engine \<Rightarrow> 'it jDBIterator \<Rightarrow> bytes
     \<Rightarrow> unit outcome \<times> 'it jDBIterator" where
  "Java_org_tron_leveldb_DBIterator_seek eng jiter k =
     (case it_nativeHandle jiter of
        None \<Rightarrow> (throw_it_not_open, jiter)
      | Some iter \<Rightarrow>
          (Returned (), jiter\<lparr>it_nativeHandle := Some (Iterator_Seek eng k iter)\<rparr>))"

definition Java_org_tron_leveldb_WriteBatch_close ::
  "('db, 'it, 'wb, 'fs) engine \<Rightarrow> 'wb jWriteBatch \<Rightarrow> unit outcome \<times> 'wb jWriteBatch" where
  "Java_org_tron_leveldb_WriteBatch_close eng jbatch =
     (Returned (), jbatch\<lparr>wb_nativeHandle := None\<rparr>)"

definition throw_batch_not_open :: "'a outcome" where
  "throw_batch_not_open = Thrown (Exception IllegalStateException ''WriteBatch is not open'')"

definition Java_org_tron_leveldb_WriteBatch_put ::
  "('db, 'it, 'wb, 'fs) engine \<Rightarrow> 'wb jWriteBatch \<Rightarrow> bytes \<Rightarrow> bytes
     \<Rightarrow> unit outcome \<times> 'wb jWriteBatch" where
  "Java_org_tron_leveldb_WriteBatch_put eng jbatch k v =
     (case wb_nativeHandle jbatch of
        None \<Rightarrow> (throw_batch_not_open, jbatch)
      | Some batch \<Rightarrow>
          (Returned (), jbatch\<lparr>wb_nativeHandle := Some (WriteBatch_Put eng k v batch)\<rparr>))"

definition Java_org_tron_leveldb_WriteBatch_delete ::
  "('db, 'it, 'wb, 'fs) engine \<Rightarrow> 'wb jWriteBatch \<Rightarrow> bytes
     \<Rightarrow> unit outcome \<times> 'wb jWriteBatch" where
  "Java_org_tron_leveldb_WriteBatch_delete eng jbatch k =
     (case wb_nativeHandle jbatch of
        None \<Rightarrow> (throw_batch_not_open, jbatch)
      | Some batch \<Rightarrow>
          (Returned (), jbatch\<lparr>wb_nativeHandle := Some (WriteBatch_Delete eng k batch)\<rparr>))"

section \<open>The storage engine behind the interface\<close>

text \<open>
  The engine itself (\<open>db/\<close>, \<open>table/\<close>, \<open>util/\<close> of the repository) is not among the
  sources at hand; only its caller is. The definitions of this section follow the words of
  the design document.
\<close>

text \<open>Modelled from the spec: the order of the keys, missing with the engine; "total order
  defined by an injected Comparator (default: lexicographic byte comparison)". The engine
  holds the comparator of the options, if they give one; a key is below another one when the
  three-way comparison of the two is negative. Without a comparator the keys are ordered
  byte-wise, shorter prefix first, which is the order \<open><\<close> on \<open>bytes\<close>.\<close>

definition key_less :: "JavaComparator option \<Rightarrow> bytes \<Rightarrow> bytes \<Rightarrow> bool" where
  "key_less cmp a b =
     (case cmp of
        None \<Rightarrow> a < b
      | Some c \<Rightarrow> sint (Compare c a b) < 0)"

text \<open>Modelled from the spec: the operation tag of an entry, missing with the engine;
  "Entry: (userKey, sequence, tag, value?) -- value absent for DELETE tags (tombstone)".\<close>

datatype tagged = PUT bytes | DELETE

text \<open>Modelled from the spec: the entry of the data model, missing with the engine.\<close>

record entry =
  userKey :: bytes
  sequence :: nat
  tagged :: tagged

text \<open>Modelled from the spec: the write batch, missing with the engine;
  "ordered sequence of Put/Delete operations".\<close>

datatype batch_op = BatchPut bytes bytes | BatchDelete bytes

type_synonym write_batch = "batch_op list"

text \<open>Modelled from the spec: a record of the write-ahead log, missing with the engine;
  "each record is framed with a length and a checksum". \<open>rec_length\<close> is the length the
  frame announces, \<open>rec_checksum_ok\<close> says whether the stored checksum matches the payload,
  and the payload is the batch with the first sequence number of its range.\<close>

record wal_record =
  rec_length :: nat
  rec_checksum_ok :: bool
  rec_sequence :: nat
  rec_ops :: "batch_op list"

text \<open>Modelled from the spec: the state of an open store, missing with the engine. \<open>wal\<close> is
  the log of the active memtable \<open>mem\<close> and \<open>wal_old\<close> the log of the memtable pending
  flush \<open>imm\<close>; \<open>wal_synced\<close> counts the leading records of \<open>wal_old @ wal\<close> that an fsync
  has covered; \<open>levels\<close> lists the sorted tables of each level, newest first;
  \<open>manifest_sequence\<close> is the sequence number of the last version edit; \<open>buffer_budget\<close> is
  the configured memtable budget; \<open>io_fault\<close> says that the underlying storage refuses
  writes; \<open>user_comparator\<close> is the comparator the store was opened with.\<close>

record store =
  user_comparator :: "JavaComparator option"
  wal_old :: "wal_record list"
  wal :: "wal_record list"
  wal_synced :: nat
  mem :: "entry list"
  imm :: "entry list option"
  levels :: "entry list list list"
  last_sequence :: nat
  manifest_sequence :: nat
  buffer_budget :: nat
  io_fault :: bool

text \<open>Modelled from the spec: the internal-key order, missing with the engine;
  "sorts by userKey ascending, then sequence descending": entries of one userKey by their
  sequence numbers, entries of different userKeys by the order of the keys.\<close>

definition internal_less :: "JavaComparator option \<Rightarrow> entry \<Rightarrow> entry \<Rightarrow> bool" where
  "internal_less cmp a b =
     (if userKey a = userKey b then sequence b < sequence a
      else key_less cmp (userKey a) (userKey b))"

text \<open>Modelled from the spec: \<open>Insert\<close> of the memtable, missing with the engine; the
  container is kept in internal-key order.\<close>

fun Memtable_Insert :: "JavaComparator option \<Rightarrow> entry \<Rightarrow> entry list \<Rightarrow> entry list" where
  "Memtable_Insert cmp e [] = [e]"
| "Memtable_Insert cmp e (x # xs) =
     (if internal_less cmp x e then x # Memtable_Insert cmp e xs else e # x # xs)"

text \<open>Modelled from the spec: the answer of a lookup in one source, missing with the engine;
  "value|NotFound|Deleted".\<close>

datatype lookup = Value bytes | NotFound | Deleted

text \<open>Modelled from the spec: \<open>Get\<close> of a memtable or of a sorted table, missing with the
  engine; "the first entry with userKey == target && sequence <= snapshotSeq is the answer;
  a DELETE tag there means NotFound" for the store as a whole, so the source reports
  \<open>Deleted\<close>.\<close>

definition Memtable_Get :: "bytes \<Rightarrow> nat \<Rightarrow> entry list \<Rightarrow> lookup" where
  "Memtable_Get k s es =
     (case find (\<lambda>e. userKey e = k \<and> sequence e \<le> s) es of
        None \<Rightarrow> NotFound
      | Some e \<Rightarrow> (case tagged e of PUT v \<Rightarrow> Value v | DELETE \<Rightarrow> Deleted))"

text \<open>Modelled from the spec: the sorted tables of a store, missing with the engine; those of
  "each level from 0 upward", and within a level the newest first.\<close>

definition tables :: "store \<Rightarrow> entry list list" where
  "tables db = concat (levels db)"

text \<open>Modelled from the spec: the sources a read consults, in the order it consults them,
  missing with the engine; "the active memtable, then any memtable pending flush, then each
  level from 0 upward".\<close>

definition sources :: "store \<Rightarrow> entry list list" where
  "sources db = mem db # (case imm db of None \<Rightarrow> [] | Some m \<Rightarrow> [m]) @ tables db"

text \<open>Modelled from the spec: the search through the sources, missing with the engine;
  "returning the first match by internal-key order; absence everywhere is NotFound".\<close>

fun sources_Get :: "bytes \<Rightarrow> nat \<Rightarrow> entry list list \<Rightarrow> lookup" where
  "sources_Get k s [] = NotFound"
| "sources_Get k s (src # srcs) =
     (case Memtable_Get k s src of
        NotFound \<Rightarrow> sources_Get k s srcs
      | Value v \<Rightarrow> Value v
      | Deleted \<Rightarrow> Deleted)"

text \<open>Modelled from the spec: \<open>Get(key, snapshotSeq)\<close> of the read path, missing with the
  engine; the binding reads as of the latest sequence number.\<close>

definition Store_Get :: "ReadOptions \<Rightarrow> bytes \<Rightarrow> store \<Rightarrow> status \<times> bytes" where
  "Store_Get options k db =
     (case sources_Get k (last_sequence db) (sources db) of
        Value v \<Rightarrow> (Status kOk [], v)
      | NotFound \<Rightarrow> (Status kNotFound [], [])
      | Deleted \<Rightarrow> (Status kNotFound [], []))"

text \<open>Modelled from the spec: the entries of a batch, missing with the engine; the batch is
  assigned "a contiguous block of sequence numbers".\<close>

fun batch_entries :: "nat \<Rightarrow> batch_op list \<Rightarrow> entry list" where
  "batch_entries s [] = []"
| "batch_entries s (BatchPut k v # ops) =
     \<lparr>userKey = k, sequence = s, tagged = PUT v\<rparr> # batch_entries (Suc s) ops"
| "batch_entries s (BatchDelete k # ops) =
     \<lparr>userKey = k, sequence = s, tagged = DELETE\<rparr> # batch_entries (Suc s) ops"

text \<open>Modelled from the spec: the framing of a batch as one log record, missing with the
  engine; "serializes the batch to one WAL record".\<close>

definition batch_record :: "nat \<Rightarrow> batch_op list \<Rightarrow> wal_record" where
  "batch_record s ops =
     \<lparr>rec_length = length ops, rec_checksum_ok = True, rec_sequence = s, rec_ops = ops\<rparr>"

text \<open>Modelled from the spec: the estimated size of an entry, missing with the engine; the
  bytes of its key and of its value.\<close>

fun entry_size :: "entry \<Rightarrow> nat" where
  "entry_size e = length (userKey e) + (case tagged e of PUT v \<Rightarrow> length v | DELETE \<Rightarrow> 0)"

text \<open>Modelled from the spec: the "estimated size" of a memtable, missing with the engine;
  the sum over its entries.\<close>

definition memtable_size :: "entry list \<Rightarrow> nat" where
  "memtable_size es = sum_list (map entry_size es)"

text \<open>Modelled from the spec: the flush of the memtable pending flush "to a new level-0
  table", missing with the engine. The version edit records the sequence number and the log
  of the flushed memtable is deleted; an edit that cannot be made durable is not applied.\<close>

definition flush_imm :: "store \<Rightarrow> store" where
  "flush_imm db =
     (case imm db of
        None \<Rightarrow> db
      | Some m \<Rightarrow>
          if io_fault db then db
          else db\<lparr>levels := (case levels db of [] \<Rightarrow> [[m]] | l0 # ls \<Rightarrow> (m # l0) # ls),
                  imm := None,
                  wal_synced := wal_synced db - length (wal_old db),
                  wal_old := [],
                  manifest_sequence := last_sequence db\<rparr>)"

text \<open>Modelled from the spec: the swap of a full memtable, missing with the engine; "if the
  memtable's estimated size exceeds its configured budget after a write, the current
  memtable is atomically swapped for a new empty one and the filled memtable is queued for
  background flush"; a writer waits for a flush that is still pending.\<close>

definition make_room :: "store \<Rightarrow> store" where
  "make_room db =
     (if buffer_budget db < memtable_size (mem db) \<and> \<not> io_fault db
      then (let db1 = flush_imm db
            in db1\<lparr>imm := Some (mem db1), mem := [], wal_old := wal db1, wal := []\<rparr>)
      else db)"

text \<open>Modelled from the spec: the two steps of a write that the storage accepts, missing
  with the engine: the batch is "written to the WAL as one record before being applied to
  the memtable", and "sync=true forces WAL fsync before returning".\<close>

definition append_and_apply :: "WriteOptions \<Rightarrow> batch_op list \<Rightarrow> store \<Rightarrow> store" where
  "append_and_apply options ops db =
     (let s = Suc (last_sequence db);
          db1 = db\<lparr>wal := wal db @ [batch_record s ops]\<rparr>;
          db2 = (if sync options
                 then db1\<lparr>wal_synced := length (wal_old db1 @ wal db1)\<rparr>
                 else db1)
      in db2\<lparr>mem := fold (Memtable_Insert (user_comparator db)) (batch_entries s ops)
                      (mem db2),
              last_sequence := last_sequence db2 + length ops\<rparr>)"

text \<open>Modelled from the spec: \<open>Write(batch, durabilityMode)\<close> of the write path, missing with
  the engine. The append to the log "fails with IOError on disk write failure (caller must
  treat the whole batch as not durable)". A null batch changes nothing.\<close>

definition Store_Write :: "WriteOptions \<Rightarrow> write_batch option \<Rightarrow> store \<Rightarrow> status \<times> store" where
  "Store_Write options batch db =
     (case batch of
        None \<Rightarrow> (Status kOk [], db)
      | Some ops \<Rightarrow>
          if io_fault db then (Status kIOError ''log append failed'', db)
          else (Status kOk [], make_room (append_and_apply options ops db)))"

text \<open>Modelled from the spec: \<open>Put\<close> and \<open>Delete\<close> of the external interface, missing with
  the engine; each is the write of a batch of one operation.\<close>

definition Store_Put :: "WriteOptions \<Rightarrow> bytes \<Rightarrow> bytes \<Rightarrow> store \<Rightarrow> status \<times> store" where
  "Store_Put options k v db = Store_Write options (Some [BatchPut k v]) db"

definition Store_Delete :: "WriteOptions \<Rightarrow> bytes \<Rightarrow> store \<Rightarrow> status \<times> store" where
  "Store_Delete options k db = Store_Write options (Some [BatchDelete k]) db"

text \<open>Modelled from the spec: the merge of a compaction, missing with the engine; "k-way
  merge over the chosen input tables' entries by internal-key order".\<close>

definition merge_tables :: "JavaComparator option \<Rightarrow> entry list list \<Rightarrow> entry list" where
  "merge_tables cmp ts = fold (Memtable_Insert cmp) (concat ts) []"

text \<open>Modelled from the spec: the dropping of superseded entries, missing with the engine;
  "for each userKey, entries are emitted from newest to oldest; an entry ... is dropped if
  superseded by a newer entry for the same userKey". Iterators keep the tables they were
  created on, so no snapshot older than the compaction reads its output.\<close>

fun drop_superseded :: "entry list \<Rightarrow> entry list" where
  "drop_superseded [] = []"
| "drop_superseded [e] = [e]"
| "drop_superseded (a # b # es) =
     (if userKey a = userKey b then drop_superseded (a # es)
      else a # drop_superseded (b # es))"

text \<open>Modelled from the spec: the compaction of level \<open>L\<close> into level \<open>L + 1\<close>, missing with
  the engine. One step of this model takes all tables of level \<open>L\<close> and all tables of level
  \<open>L + 1\<close> as its input and writes one table of level \<open>L + 1\<close>; "a DELETE tombstone is dropped
  once no lower level can still contain an older visible entry for that userKey"; the result
  is published as a version edit, and not at all when the storage refuses it.\<close>

definition compact :: "nat \<Rightarrow> store \<Rightarrow> store" where
  "compact L db =
     (if io_fault db \<or> length (levels db) \<le> L then db
      else
        (let ls = levels db;
             upper = ls ! L;
             lower = (if Suc L < length ls then ls ! Suc L else []);
             deeper = concat (concat (drop (Suc (Suc L)) ls));
             merged = drop_superseded (merge_tables (user_comparator db) (upper @ lower));
             out = filter (\<lambda>e. tagged e \<noteq> DELETE \<or> userKey e \<in> set (map userKey deeper))
                     merged
         in db\<lparr>levels := take L ls @ [[], [out]] @ drop (Suc (Suc L)) ls,
                manifest_sequence := last_sequence db\<rparr>))"

text \<open>Modelled from the spec: the check of one log record at recovery, missing with the
  engine; recovery "verifies checksums per record, and stops at the first corrupt or
  incomplete record".\<close>

definition intact :: "wal_record \<Rightarrow> bool" where
  "intact r = (length (rec_ops r) = rec_length r \<and> rec_checksum_ok r)"

text \<open>Modelled from the spec: the replay of the log into a memtable, missing with the
  engine.\<close>

definition replay ::
  "JavaComparator option \<Rightarrow> wal_record list \<Rightarrow> entry list \<Rightarrow> entry list" where
  "replay cmp rs m =
     fold (\<lambda>r m. fold (Memtable_Insert cmp) (batch_entries (rec_sequence r) (rec_ops r)) m)
       rs m"

text \<open>Modelled from the spec: the sequence number after recovery, missing with the engine;
  the largest one of the manifest and of the replayed records.\<close>

definition recovered_sequence :: "wal_record list \<Rightarrow> nat \<Rightarrow> nat" where
  "recovered_sequence rs s =
     fold (\<lambda>r s. max s (rec_sequence r + length (rec_ops r) - 1)) rs s"

text \<open>Modelled from the spec: the restart of a store whose process has stopped, missing with
  the engine; "drop memtable, replay WAL". The memtables are lost, the tables of the manifest
  stay, and the log is read up to its first corrupt or incomplete record; "data after that
  point is discarded, not an error".\<close>

definition restart :: "store \<Rightarrow> store" where
  "restart db =
     (let rs = takeWhile intact (wal_old db @ wal db)
      in db\<lparr>wal_old := [],
             wal := rs,
             wal_synced := min (wal_synced db) (length rs),
             mem := replay (user_comparator db) rs [],
             imm := None,
             last_sequence := recovered_sequence rs (manifest_sequence db)\<rparr>)"

text \<open>Modelled from the spec: the log a crash leaves behind, missing with the engine. Of the
  records of the log, those covered by an fsync survive, and \<open>extra\<close> more of the records
  written after them.\<close>

definition crash :: "nat \<Rightarrow> store \<Rightarrow> store" where
  "crash extra db =
     (let n = wal_synced db + extra
      in db\<lparr>wal_old := take n (wal_old db), wal := take (n - length (wal_old db)) (wal db)\<rparr>)"

text \<open>Modelled from the spec: a crash in the middle of the write of a batch, missing with
  the engine; "crash mid-batch (simulated truncated WAL tail)". The frame of the record is in
  the log, with only the first \<open>n\<close> operations of its payload.\<close>

definition torn_Write :: "write_batch \<Rightarrow> nat \<Rightarrow> store \<Rightarrow> store" where
  "torn_Write ops n db =
     db\<lparr>wal := wal db @ [(batch_record (Suc (last_sequence db)) ops)\<lparr>rec_ops := take n ops\<rparr>]\<rparr>"

text \<open>Modelled from the spec: what the storage holds under a path, missing with the engine:
  the store as its last process left it, the comparator name of its manifest, whether the
  manifest is well formed and whether the storage can be read. Of a comparator only the name
  is stored; the next process brings its own.\<close>

record directory =
  dir_store :: store
  dir_comparator :: string
  dir_manifest_ok :: bool
  dir_readable :: bool

text \<open>Modelled from the spec: a store just created, missing with the engine; it has the
  comparator and the memtable budget of the options.\<close>

definition new_store :: "JavaComparator option \<Rightarrow> nat \<Rightarrow> store" where
  "new_store cmp budget =
     \<lparr>user_comparator = cmp, wal_old = [], wal = [], wal_synced = 0, mem = [], imm = None,
      levels = [], last_sequence = 0, manifest_sequence = 0, buffer_budget = budget,
      io_fault = False\<rparr>"

text \<open>Modelled from the spec: the name of the comparator in force, missing with the engine;
  the default comparator when the options give none.\<close>

definition comparator_name :: "Options \<Rightarrow> string" where
  "comparator_name options =
     (case comparator options of
        None \<Rightarrow> ''leveldb.BytewiseComparator''
      | Some c \<Rightarrow> Name c)"

text \<open>Modelled from the spec: \<open>Open(path, options) -> Store | Error{InvalidArgument, IOError,
  CorruptManifest}\<close>, missing with the engine; \<open>InvalidArgument\<close> is "bad options, comparator
  mismatch between open and stored data", \<open>IOError\<close> an "underlying storage failure" and a
  manifest that cannot be replayed fails the call with a corruption. The opened store orders
  its keys by the comparator of the options.\<close>

definition Store_Open ::
  "Options \<Rightarrow> string \<Rightarrow> (string \<Rightarrow> directory option) \<Rightarrow> status \<times> store option" where
  "Store_Open options path fs =
     (case fs path of
        None \<Rightarrow>
          if create_if_missing options
          then (Status kOk [],
                Some (new_store (comparator options) (unat (write_buffer_size options))))
          else (Status kInvalidArgument ''does not exist (create_if_missing is false)'', None)
      | Some d \<Rightarrow>
          if error_if_exists options
          then (Status kInvalidArgument ''exists (error_if_exists is true)'', None)
          else if \<not> dir_readable d
          then (Status kIOError ''cannot read the store'', None)
          else if \<not> dir_manifest_ok d
          then (Status kCorruption ''manifest cannot be replayed'', None)
          else if dir_comparator d \<noteq> comparator_name options
          then (Status kInvalidArgument ''comparator does not match the stored data'', None)
          else (Status kOk [],
                Some (restart ((dir_store d)\<lparr>user_comparator := comparator options,
                        buffer_budget := unat (write_buffer_size options)\<rparr>))))"

text \<open>Modelled from the spec: the text of a status, missing with the engine; the name of its
  kind in the error taxonomy, followed by its message.\<close>

fun Store_ToString :: "status \<Rightarrow> string" where
  "Store_ToString (Status kOk m) = ''OK''"
| "Store_ToString (Status kNotFound m) = ''NotFound: '' @ m"
| "Store_ToString (Status kCorruption m) = ''Corruption: '' @ m"
| "Store_ToString (Status kInvalidArgument m) = ''InvalidArgument: '' @ m"
| "Store_ToString (Status kIOError m) = ''IOError: '' @ m"

text \<open>Modelled from the spec: the text of a diagnostic counter, missing with the engine; a
  number in decimal digits.\<close>

fun decimal :: "nat \<Rightarrow> string" where
  "decimal n =
     (if n < 10 then [char_of (48 + n)] else decimal (n div 10) @ [char_of (48 + n mod 10)])"

text \<open>Modelled from the spec: \<open>GetProperty(name) -> string\<close>, missing with the engine; the
  "table counts per level", one property for each level, and no other property.\<close>

definition Store_GetProperty :: "string \<Rightarrow> store \<Rightarrow> bool \<times> string" where
  "Store_GetProperty name db =
     (case find (\<lambda>L. name = ''leveldb.num-files-at-level'' @ decimal L)
             [0 ..< length (levels db)] of
        None \<Rightarrow> (False, [])
      | Some L \<Rightarrow> (True, decimal (length (levels db ! L))))"

text \<open>Modelled from the spec: the iterator of the read path, missing with the engine. It
  "holds a reference to the Version active at creation time": the sources and the sequence
  number of its creation; \<open>it_comparator\<close> is the comparator of its store and \<open>it_current\<close>
  is the userKey it stands on, if it is valid.\<close>

record iterator =
  it_version :: "entry list list"
  it_snapshot :: nat
  it_comparator :: "JavaComparator option"
  it_current :: "bytes option"

text \<open>Modelled from the spec: the newest version of a userKey that a snapshot sees, missing
  with the engine; "skipping entries whose sequence exceeds the snapshot and collapsing
  multiple versions of the same userKey to the newest visible one".\<close>

fun newest :: "bytes \<Rightarrow> nat \<Rightarrow> entry list \<Rightarrow> entry option" where
  "newest k s [] = None"
| "newest k s (e # es) =
     (case newest k s es of
        None \<Rightarrow> (if userKey e = k \<and> sequence e \<le> s then Some e else None)
      | Some e' \<Rightarrow>
          (if userKey e = k \<and> sequence e \<le> s \<and> sequence e' \<le> sequence e
           then Some e else Some e'))"

text \<open>Modelled from the spec: the value an iterator shows for a userKey, missing with the
  engine; "DELETE tags surfaced as absent, transparently skipped rather than returned".\<close>

definition visible :: "iterator \<Rightarrow> bytes \<Rightarrow> bytes option" where
  "visible it k =
     (case newest k (it_snapshot it) (concat (it_version it)) of
        None \<Rightarrow> None
      | Some e \<Rightarrow> (case tagged e of PUT v \<Rightarrow> Some v | DELETE \<Rightarrow> None))"

text \<open>Modelled from the spec: the userKeys an iterator shows, missing with the engine; those
  of the entries of its sources whose newest visible version is not a tombstone.\<close>

definition live_keys :: "iterator \<Rightarrow> bytes list" where
  "live_keys it =
     filter (\<lambda>k. visible it k \<noteq> None) (map userKey (concat (it_version it)))"

text \<open>Modelled from the spec: the smallest key of the merged sources in a given order of
  the keys, missing with the engine; what the "min-heap (forward)" of the merging iterator
  delivers.\<close>

fun least :: "(bytes \<Rightarrow> bytes \<Rightarrow> bool) \<Rightarrow> bytes list \<Rightarrow> bytes option" where
  "least lt [] = None"
| "least lt (k # ks) =
     (case least lt ks of
        None \<Rightarrow> Some k
      | Some m \<Rightarrow> Some (if lt k m then k else m))"

text \<open>Modelled from the spec: the largest key of the merged sources in a given order of
  the keys, missing with the engine; what the "max-heap (backward)" of the merging iterator
  delivers. The largest key is the smallest one of the converse order.\<close>

definition greatest :: "(bytes \<Rightarrow> bytes \<Rightarrow> bool) \<Rightarrow> bytes list \<Rightarrow> bytes option" where
  "greatest lt ks = least (\<lambda>a b. lt b a) ks"

text \<open>Modelled from the spec: \<open>NewIterator\<close>, missing with the engine; the iterator is built
  "over the same sources" as a read, as of the latest sequence number, and is not
  positioned yet.\<close>

definition Store_NewIterator :: "ReadOptions \<Rightarrow> store \<Rightarrow> iterator" where
  "Store_NewIterator options db =
     \<lparr>it_version = sources db, it_snapshot = last_sequence db,
      it_comparator = user_comparator db, it_current = None\<rparr>"

text \<open>Modelled from the spec: \<open>Valid\<close> of the iterator, missing with the engine.\<close>

definition Iter_Valid :: "iterator \<Rightarrow> bool" where
  "Iter_Valid it = (it_current it \<noteq> None)"

text \<open>Modelled from the spec: the order in which an iterator walks the userKeys, missing
  with the engine; the order of the comparator of its store.\<close>

definition it_less :: "iterator \<Rightarrow> bytes \<Rightarrow> bytes \<Rightarrow> bool" where
  "it_less it = key_less (it_comparator it)"

text \<open>Modelled from the spec: \<open>SeekToFirst\<close> of the iterator, missing with the engine; the
  smallest visible userKey in the order of the comparator, if there is one.\<close>

definition Iter_SeekToFirst :: "iterator \<Rightarrow> iterator" where
  "Iter_SeekToFirst it = it\<lparr>it_current := least (it_less it) (live_keys it)\<rparr>"

text \<open>Modelled from the spec: \<open>SeekToLast\<close> of the iterator, missing with the engine; the
  largest visible userKey in the order of the comparator, if there is one.\<close>

definition Iter_SeekToLast :: "iterator \<Rightarrow> iterator" where
  "Iter_SeekToLast it = it\<lparr>it_current := greatest (it_less it) (live_keys it)\<rparr>"

text \<open>Modelled from the spec: \<open>Seek(key)\<close> of the iterator, missing with the engine; the
  smallest visible userKey that is not below the target in the order of the comparator.\<close>

definition Iter_Seek :: "bytes \<Rightarrow> iterator \<Rightarrow> iterator" where
  "Iter_Seek target it =
     it\<lparr>it_current :=
          least (it_less it) (filter (\<lambda>k. \<not> it_less it k target) (live_keys it))\<rparr>"

text \<open>Modelled from the spec: \<open>Next\<close> of the iterator, missing with the engine; "Next/Prev
  always return the globally next/previous visible userKey": the smallest visible userKey
  above the current one in the order of the comparator. It is meant for a valid iterator;
  another one is left as it is.\<close>

definition Iter_Next :: "iterator \<Rightarrow> iterator" where
  "Iter_Next it =
     (case it_current it of
        None \<Rightarrow> it
      | Some c \<Rightarrow>
          it\<lparr>it_current :=
               least (it_less it) (filter (\<lambda>k. it_less it c k) (live_keys it))\<rparr>)"

text \<open>Modelled from the spec: \<open>Prev\<close> of the iterator, missing with the engine; the
  globally previous visible userKey: the largest visible userKey below the current one in
  the order of the comparator. It is meant for a valid iterator; another one is left as it
  is.\<close>

definition Iter_Prev :: "iterator \<Rightarrow> iterator" where
  "Iter_Prev it =
     (case it_current it of
        None \<Rightarrow> it
      | Some c \<Rightarrow>
          it\<lparr>it_current :=
               greatest (it_less it) (filter (\<lambda>k. it_less it k c) (live_keys it))\<rparr>)"

text \<open>Modelled from the spec: \<open>Key\<close> of the iterator, missing with the engine; the userKey
  it stands on. It is meant for a valid iterator; on another one it reads the empty byte
  sequence.\<close>

definition Iter_key :: "iterator \<Rightarrow> bytes" where
  "Iter_key it = (case it_current it of None \<Rightarrow> [] | Some c \<Rightarrow> c)"

text \<open>Modelled from the spec: \<open>Value\<close> of the iterator, missing with the engine; the
  newest visible value of the userKey it stands on. It is meant for a valid iterator; on
  another one it reads the empty byte sequence.\<close>

definition Iter_value :: "iterator \<Rightarrow> bytes" where
  "Iter_value it =
     (case it_current it of
        None \<Rightarrow> []
      | Some c \<Rightarrow> (case visible it c of None \<Rightarrow> [] | Some v \<Rightarrow> v))"

text \<open>Modelled from the spec: the options of \<open>Open\<close> after default construction, missing
  with the engine. No comparator means the byte-wise one ("default: lexicographic byte
  comparison") and no logger the engine's own; the binding assigns every other field but
  \<open>error_if_exists\<close> before it opens the store, so their defaults do not matter here.\<close>

definition Store_Options :: Options where
  "Store_Options =
     \<lparr>create_if_missing = False, error_if_exists = False, paranoid_checks = False,
      compression = 0, block_size = 0, write_buffer_size = 0, block_cache = 0,
      max_open_files = 0, comparator = None, info_log = None\<rparr>"

text \<open>Modelled from the spec: the options of a read after default construction, missing
  with the engine; a read does not verify checksums unless asked to.\<close>

definition Store_ReadOptions :: ReadOptions where
  "Store_ReadOptions = \<lparr>verify_checksums = False, fill_cache = True\<rparr>"

text \<open>Modelled from the spec: the options of a write after default construction, missing
  with the engine; a write does not force an fsync unless asked to.\<close>

definition Store_WriteOptions :: WriteOptions where
  "Store_WriteOptions = \<lparr>sync = False\<rparr>"

text \<open>Modelled from the spec: the engine as a whole, missing from the sources; the batch
  operations \<open>Put\<close> and \<open>Delete\<close> add to the end of the ordered sequence, and a block cache
  is known by its capacity.\<close>

definition leveldb :: "(store, iterator, write_batch, string \<Rightarrow> directory option) engine" where
  "leveldb =
     \<lparr>default_Options = Store_Options,
      default_ReadOptions = Store_ReadOptions,
      default_WriteOptions = Store_WriteOptions,
      NewLRUCache = (\<lambda>capacity. capacity),
      ToString = Store_ToString,
      DB_Open = Store_Open,
      DB_Put = Store_Put,
      DB_Delete = Store_Delete,
      DB_Write = Store_Write,
      DB_Get = Store_Get,
      DB_NewIterator = Store_NewIterator,
      DB_GetProperty = Store_GetProperty,
      Iterator_Valid = Iter_Valid,
      Iterator_SeekToFirst = Iter_SeekToFirst,
      Iterator_SeekToLast = Iter_SeekToLast,
      Iterator_Seek = Iter_Seek,
      Iterator_Next = Iter_Next,
      Iterator_Prev = Iter_Prev,
      Iterator_key = Iter_key,
      Iterator_value = Iter_value,
      WriteBatch_new = [],
      WriteBatch_Put = (\<lambda>k v batch. batch @ [BatchPut k v]),
      WriteBatch_Delete = (\<lambda>k batch. batch @ [BatchDelete k])\<rparr>"

section \<open>Callers of the native methods\<close>

text \<open>
  The iteration of a Java caller that walks an iterator: forwards with \<open>hasNext\<close> and \<open>next\<close>,
  backwards with \<open>hasPrev\<close>, \<open>peekPrev\<close> and \<open>prev\<close>, each for at most \<open>n\<close> rounds. \<open>None\<close> is
  an iteration that has not ended after \<open>n\<close> rounds; otherwise the entries seen are returned, or
  the exception or abort that ended it.
\<close>

fun forward_loop ::
  "('db, 'it, 'wb, 'fs) engine \<Rightarrow> nat \<Rightarrow> 'it jDBIterator
     \<Rightarrow> (bytes \<times> bytes) list outcome option" where
  "forward_loop eng 0 jiter = None"
| "forward_loop eng (Suc n) jiter =
     (case fst (Java_org_tron_leveldb_DBIterator_hasNext eng jiter) of
        Thrown e \<Rightarrow> Some (Thrown e)
      | Aborted \<Rightarrow> Some Aborted
      | Returned False \<Rightarrow> Some (Returned [])
      | Returned True \<Rightarrow>
          (case Java_org_tron_leveldb_DBIterator_next eng jiter of
             (Thrown e, jiter') \<Rightarrow> Some (Thrown e)
           | (Aborted, jiter') \<Rightarrow> Some Aborted
           | (Returned kv, jiter') \<Rightarrow>
               (case forward_loop eng n jiter' of
                  None \<Rightarrow> None
                | Some (Returned kvs) \<Rightarrow> Some (Returned (kv # kvs))
                | Some (Thrown e) \<Rightarrow> Some (Thrown e)
                | Some Aborted \<Rightarrow> Some Aborted)))"

fun backward_loop ::
  "('db, 'it, 'wb, 'fs) engine \<Rightarrow> nat \<Rightarrow> 'it jDBIterator
     \<Rightarrow> (bytes \<times> bytes) list outcome option" where
  "backward_loop eng 0 jiter = None"
| "backward_loop eng (Suc n) jiter =
     (case fst (Java_org_tron_leveldb_DBIterator_hasPrev eng jiter) of
        Thrown e \<Rightarrow> Some (Thrown e)
      | Aborted \<Rightarrow> Some Aborted
      | Returned False \<Rightarrow> Some (Returned [])
      | Returned True \<Rightarrow>
          (case fst (Java_org_tron_leveldb_DBIterator_peekPrev eng jiter) of
             Thrown e \<Rightarrow> Some (Thrown e)
           | Aborted \<Rightarrow> Some Aborted
           | Returned kv \<Rightarrow>
               (case Java_org_tron_leveldb_DBIterator_prev eng jiter of
                  (Thrown e, jiter') \<Rightarrow> Some (Thrown e)
                | (Aborted, jiter') \<Rightarrow> Some Aborted
                | (Returned u, jiter') \<Rightarrow>
                    (case backward_loop eng n jiter' of
                       None \<Rightarrow> None
                     | Some (Returned kvs) \<Rightarrow> Some (Returned (kv # kvs))
                     | Some (Thrown e) \<Rightarrow> Some (Thrown e)
                     | Some Aborted \<Rightarrow> Some Aborted))))"

definition forward_iteration ::
  "('db, 'it, 'wb, 'fs) engine \<Rightarrow> nat \<Rightarrow> 'it jDBIterator
     \<Rightarrow> (bytes \<times> bytes) list outcome option" where
  "forward_iteration eng n jiter =
     (case Java_org_tron_leveldb_DBIterator_seekToFirst eng jiter of
        (Returned u, jiter') \<Rightarrow> forward_loop eng n jiter'
      | (Thrown e, jiter') \<Rightarrow> Some (Thrown e)
      | (Aborted, jiter') \<Rightarrow> Some Aborted)"

definition backward_iteration ::
  "('db, 'it, 'wb, 'fs) engine \<Rightarrow> nat \<Rightarrow> 'it jDBIterator
     \<Rightarrow> (bytes \<times> bytes) list outcome option" where
  "backward_iteration eng n jiter =
     (case Java_org_tron_leveldb_DBIterator_seekToLast eng jiter of
        (Returned u, jiter') \<Rightarrow> backward_loop eng n jiter'
      | (Thrown e, jiter') \<Rightarrow> Some (Thrown e)
      | (Aborted, jiter') \<Rightarrow> Some Aborted)"

section \<open>Notions the properties are stated with\<close>

text \<open>
  What a store answers to \<open>Get\<close> for each key, as a partial map; and the map that an
  ordered sequence of Put and Delete operations makes of a given map.
\<close>

definition contents :: "store \<Rightarrow> bytes \<Rightarrow> bytes option" where
  "contents db k =
     (case sources_Get k (last_sequence db) (sources db) of
        Value v \<Rightarrow> Some v
      | NotFound \<Rightarrow> None
      | Deleted \<Rightarrow> None)"

fun apply_batch :: "batch_op list \<Rightarrow> (bytes \<Rightarrow> bytes option) \<Rightarrow> (bytes \<Rightarrow> bytes option)" where
  "apply_batch [] m = m"
| "apply_batch (BatchPut k v # ops) m = apply_batch ops (m(k \<mapsto> v))"
| "apply_batch (BatchDelete k # ops) m = apply_batch ops (m(k := None))"

fun op_key :: "batch_op \<Rightarrow> bytes" where
  "op_key (BatchPut k v) = k"
| "op_key (BatchDelete k) = k"

text \<open>
  The last operation of a batch on a key, in the vocabulary of a lookup: \<open>NotFound\<close> when no
  operation of the batch names the key.
\<close>

fun batch_effect :: "bytes \<Rightarrow> batch_op list \<Rightarrow> lookup" where
  "batch_effect k [] = NotFound"
| "batch_effect k (BatchPut k' v # ops) =
     (case batch_effect k ops of
        NotFound \<Rightarrow> (if k' = k then Value v else NotFound)
      | Value w \<Rightarrow> Value w
      | Deleted \<Rightarrow> Deleted)"
| "batch_effect k (BatchDelete k' # ops) =
     (case batch_effect k ops of
        NotFound \<Rightarrow> (if k' = k then Deleted else NotFound)
      | Value w \<Rightarrow> Value w
      | Deleted \<Rightarrow> Deleted)"

text \<open>
  The invariant of the data model, "sequence numbers are strictly increasing and never
  reused", as far as the proofs need it: no entry of a memtable or table and no record of
  the log is ahead of the last sequence number, no table is ahead of the manifest, and every
  record of the log of a running store is complete.
\<close>

definition consistent :: "store \<Rightarrow> bool" where
  "consistent db =
     ((\<forall>src \<in> set (sources db). \<forall>e \<in> set src. sequence e \<le> last_sequence db)
      \<and> (\<forall>r \<in> set (wal_old db @ wal db).
            intact r \<and> rec_sequence r + length (rec_ops r) \<le> Suc (last_sequence db))
      \<and> (\<forall>t \<in> set (tables db). \<forall>e \<in> set t. sequence e \<le> manifest_sequence db)
      \<and> manifest_sequence db \<le> last_sequence db)"

text \<open>
  The entry an iterator shows at a key. What the design document asks of a comparator, a
  "total order" of the keys: no key is below itself, the order is transitive, and of two
  different keys one is below the other; the comment of \<open>JavaComparator::Compare\<close> says the
  same of the three-way comparison. And the keys of a list in the ascending order of a given
  order, each of them once.
\<close>

definition shown :: "iterator \<Rightarrow> bytes \<Rightarrow> bytes \<times> bytes" where
  "shown it k = (k, case visible it k of None \<Rightarrow> [] | Some v \<Rightarrow> v)"

definition total_order :: "(bytes \<Rightarrow> bytes \<Rightarrow> bool) \<Rightarrow> bool" where
  "total_order lt =
     ((\<forall>a. \<not> lt a a)
      \<and> (\<forall>a b c. lt a b \<and> lt b c \<longrightarrow> lt a c)
      \<and> (\<forall>a b. a = b \<or> lt a b \<or> lt b a))"

fun ascending :: "(bytes \<Rightarrow> bytes \<Rightarrow> bool) \<Rightarrow> bytes list \<Rightarrow> bytes list" where
  "ascending lt [] = []"
| "ascending lt (k # ks) =
     filter (\<lambda>x. lt x k) (ascending lt ks) @ k # filter (\<lambda>x. lt k x) (ascending lt ks)"

section \<open>Example stores\<close>

text \<open>
  A store with a zero memtable budget takes one Put, flushes the memtable and compacts
  level 0: the key \<open>[1]\<close> then lives in a table of level 1 only. The same store with
  storage that refuses writes, and a store whose storage refuses writes after one write
  without fsync. An iterator over a memtable and a table that hold two live keys, a deleted
  key and a key written after the snapshot, and a storage with one directory for each way
  \<open>Open\<close> can end. A Java comparator that orders the keys the other way round, a store
  created by \<open>init\<close> with this comparator that has taken two calls of \<open>put\<close>, and the
  iterator that \<open>iterator\<close> returns for it.
\<close>

definition example_store :: store where
  "example_store =
     compact 0 (flush_imm (snd (Store_Put Store_WriteOptions [1] [7] (new_store None 0))))"

definition example_db :: "store jDB" where
  "example_db =
     \<lparr>nativeDb = Some example_store, nativeComparator = None, nativeLogger = None,
      verifyChecksumsSet = False\<rparr>"

definition faulty_db :: "store jDB" where
  "faulty_db = example_db\<lparr>nativeDb := Some (example_store\<lparr>io_fault := True\<rparr>)\<rparr>"

definition unsynced_db :: "store jDB" where
  "unsynced_db =
     example_db\<lparr>nativeDb :=
       Some ((snd (Store_Put \<lparr>sync = False\<rparr> [5] [6] example_store))\<lparr>io_fault := True\<rparr>)\<rparr>"

definition example_batch :: "write_batch jWriteBatch" where
  "example_batch = \<lparr>wb_nativeHandle = Some [BatchPut [120] [1], BatchPut [121] [2]]\<rparr>"

definition example_cursor :: iterator where
  "example_cursor =
     \<lparr>it_version =
        [[\<lparr>userKey = [2], sequence = 4, tagged = DELETE\<rparr>,
          \<lparr>userKey = [3], sequence = 5, tagged = PUT [30]\<rparr>],
         [\<lparr>userKey = [1], sequence = 1, tagged = PUT [10]\<rparr>,
          \<lparr>userKey = [2], sequence = 2, tagged = PUT [20]\<rparr>,
          \<lparr>userKey = [3], sequence = 3, tagged = PUT [31]\<rparr>,
          \<lparr>userKey = [1, 0], sequence = 6, tagged = PUT [11]\<rparr>]],
      it_snapshot = 5,
      it_comparator = None,
      it_current = Some [1]\<rparr>"

definition example_iterator :: "iterator jDBIterator" where
  "example_iterator = \<lparr>it_nativeHandle = Some example_cursor\<rparr>"

definition example_storage :: "string \<Rightarrow> directory option" where
  "example_storage path =
     (if path = ''/db/good''
      then Some \<lparr>dir_store = example_store, dir_comparator = ''leveldb.BytewiseComparator'',
                 dir_manifest_ok = True, dir_readable = True\<rparr>
      else if path = ''/db/unreadable''
      then Some \<lparr>dir_store = example_store, dir_comparator = ''leveldb.BytewiseComparator'',
                 dir_manifest_ok = True, dir_readable = False\<rparr>
      else if path = ''/db/damaged''
      then Some \<lparr>dir_store = example_store, dir_comparator = ''leveldb.BytewiseComparator'',
                 dir_manifest_ok = False, dir_readable = True\<rparr>
      else None)"

definition example_options :: jOptions where
  "example_options =
     \<lparr>createIfMissing = False, paranoidChecks = False, compressionType_persistentId = 1,
      blockSize = 4096, writeBufferSize = 4194304, cacheSize = 8388608, maxOpenFiles = 1000,
      jcomparator = None, jlogger = None\<rparr>"

definition unopened_db :: "store jDB" where
  "unopened_db =
     \<lparr>nativeDb = None, nativeComparator = None, nativeLogger = None,
      verifyChecksumsSet = False\<rparr>"

definition reverse_comparator :: DBComparator where
  "reverse_comparator =
     \<lparr>jc_name = ''reverse'',
      jc_compare = (\<lambda>a b. if a = b then 0 else if a < b then 1 else - 1),
      jc_findShortestSeparator = (\<lambda>start limit. start),
      jc_findShortSuccessor = (\<lambda>k. k)\<rparr>"

definition reverse_options :: jOptions where
  "reverse_options =
     example_options\<lparr>createIfMissing := True, jcomparator := Some reverse_comparator\<rparr>"

definition reverse_db :: "store jDB" where
  "reverse_db =
     snd (Java_org_tron_leveldb_DB_put___3B_3B leveldb
       (snd (Java_org_tron_leveldb_DB_put___3B_3B leveldb
         (snd (Java_org_tron_leveldb_DB_init leveldb example_storage unopened_db ''/db/new''
                 reverse_options))
         [1] [10]))
       [2] [20])"

definition reverse_iterator :: "iterator jDBIterator" where
  "reverse_iterator =
     (case fst (Java_org_tron_leveldb_DB_iterator leveldb reverse_db
                  \<lparr>verifyChecksums = False, fillCache = True\<rparr>) of
        Returned jiter \<Rightarrow> jiter
      | Thrown e \<Rightarrow> \<lparr>it_nativeHandle = None\<rparr>
      | Aborted \<Rightarrow> \<lparr>it_nativeHandle = None\<rparr>)"

definition reverse_cursor :: iterator where
  "reverse_cursor =
     \<lparr>it_version =
        [[\<lparr>userKey = [2], sequence = 2, tagged = PUT [20]\<rparr>,
          \<lparr>userKey = [1], sequence = 1, tagged = PUT [10]\<rparr>]],
      it_snapshot = 2,
      it_comparator = Some (JavaComparator reverse_comparator),
      it_current = None\<rparr>"

section \<open>The write path and the read path of the engine\<close>

lemma find_Insert_other:
  "\<not> P e \<Longrightarrow> find P (Memtable_Insert cmp e m) = find P m"
  by (induction m) auto

lemma find_Insert_new:
  "P e \<Longrightarrow> \<forall>x \<in> set m. internal_less cmp x e \<longrightarrow> \<not> P x \<Longrightarrow>
     find P (Memtable_Insert cmp e m) = Some e"
  by (induction m) auto

lemma set_Memtable_Insert: "set (Memtable_Insert cmp e m) = insert e (set m)"
  by (induction m) auto

lemma Memtable_Get_Insert:
  assumes "\<forall>x \<in> set m. sequence x < sequence e" and "sequence e \<le> s"
  shows "Memtable_Get k s (Memtable_Insert cmp e m) =
           (if userKey e = k then (case tagged e of PUT v \<Rightarrow> Value v | DELETE \<Rightarrow> Deleted)
            else Memtable_Get k s m)"
proof (cases "userKey e = k")
  case True
  have "find (\<lambda>x. userKey x = k \<and> sequence x \<le> s) (Memtable_Insert cmp e m) = Some e"
    using assms True by (intro find_Insert_new) (auto simp: internal_less_def)
  then show ?thesis using True by (simp add: Memtable_Get_def)
next
  case False
  then show ?thesis by (simp add: Memtable_Get_def find_Insert_other)
qed

lemma Memtable_Get_Insert_same:
  assumes "\<forall>x \<in> set m. sequence x < s0" and "s0 \<le> s"
  shows "Memtable_Get k s (Memtable_Insert cmp \<lparr>userKey = k, sequence = s0, tagged = t\<rparr> m) =
           (case t of PUT v \<Rightarrow> Value v | DELETE \<Rightarrow> Deleted)"
  using Memtable_Get_Insert [where e = "\<lparr>userKey = k, sequence = s0, tagged = t\<rparr>"
      and m = m and s = s and k = k and cmp = cmp] assms
  by simp

lemma Memtable_Get_Insert_diff:
  assumes "k' \<noteq> k"
  shows "Memtable_Get k s (Memtable_Insert cmp \<lparr>userKey = k', sequence = s0, tagged = t\<rparr> m) =
           Memtable_Get k s m"
  using assms by (simp add: Memtable_Get_def find_Insert_other)

lemma Memtable_Get_batch:
  assumes "\<forall>x \<in> set m. sequence x < s0" and "s0 + length ops \<le> Suc s"
  shows "Memtable_Get k s (fold (Memtable_Insert cmp) (batch_entries s0 ops) m) =
           (case batch_effect k ops of NotFound \<Rightarrow> Memtable_Get k s m | r \<Rightarrow> r)"
  using assms
proof (induction ops arbitrary: m s0)
  case Nil
  then show ?case by simp
next
  case (Cons op ops)
  have s0: "s0 \<le> s" and rest: "Suc s0 + length ops \<le> Suc s"
    using Cons.prems(2) by simp_all
  have bound: "\<forall>x \<in> set (Memtable_Insert cmp \<lparr>userKey = k', sequence = s0, tagged = t\<rparr> m).
                  sequence x < Suc s0" for k' t
    using Cons.prems(1) by (auto simp: set_Memtable_Insert less_Suc_eq)
  show ?case
  proof (cases op)
    case (BatchPut k' v)
    show ?thesis
      using Cons.IH [OF bound rest, of k' "PUT v"] Cons.prems(1) s0
      by (cases "k' = k")
         (simp_all add: BatchPut Memtable_Get_Insert_same Memtable_Get_Insert_diff
            split: lookup.splits)
  next
    case (BatchDelete k')
    show ?thesis
      using Cons.IH [OF bound rest, of k' DELETE] Cons.prems(1) s0
      by (cases "k' = k")
         (simp_all add: BatchDelete Memtable_Get_Insert_same Memtable_Get_Insert_diff
            split: lookup.splits)
  qed
qed

lemma apply_batch_effect:
  "apply_batch ops m k =
     (case batch_effect k ops of NotFound \<Rightarrow> m k | Value v \<Rightarrow> Some v | Deleted \<Rightarrow> None)"
proof (induction ops arbitrary: m)
  case Nil
  then show ?case by simp
next
  case (Cons op ops)
  then show ?case by (cases op) (auto split: lookup.splits)
qed

lemma tables_flush_imm:
  "imm db = Some m \<Longrightarrow> \<not> io_fault db \<Longrightarrow> tables (flush_imm db) = m # tables db"
  by (simp add: flush_imm_def tables_def split: list.splits)

lemma sources_flush_imm: "sources (flush_imm db) = sources db"
proof (cases "imm db")
  case None
  then show ?thesis by (simp add: flush_imm_def)
next
  case (Some m)
  show ?thesis
  proof (cases "io_fault db")
    case True
    then show ?thesis using Some by (simp add: flush_imm_def)
  next
    case False
    have "mem (flush_imm db) = mem db" "imm (flush_imm db) = None"
      using Some False by (simp_all add: flush_imm_def)
    then show ?thesis
      using Some False by (simp add: sources_def tables_flush_imm)
  qed
qed

lemma last_sequence_flush_imm: "last_sequence (flush_imm db) = last_sequence db"
  by (simp add: flush_imm_def split: option.splits)

lemma io_fault_flush_imm: "io_fault (flush_imm db) = io_fault db"
  by (simp add: flush_imm_def split: option.splits)

lemma imm_flush_imm: "\<not> io_fault db \<Longrightarrow> imm (flush_imm db) = None"
  by (simp add: flush_imm_def split: option.splits)

lemma sources_make_room:
  "sources (make_room db) = sources db \<or> sources (make_room db) = [] # sources db"
proof (cases "buffer_budget db < memtable_size (mem db) \<and> \<not> io_fault db")
  case True
  have "sources (flush_imm db) = mem (flush_imm db) # tables (flush_imm db)"
    using True by (simp add: sources_def imm_flush_imm)
  then have "mem (flush_imm db) # tables (flush_imm db) = sources db"
    by (simp add: sources_flush_imm)
  then show ?thesis
    using True by (simp add: make_room_def Let_def sources_def tables_def)
next
  case False
  then show ?thesis by (auto simp: make_room_def)
qed

lemma last_sequence_make_room: "last_sequence (make_room db) = last_sequence db"
  by (simp add: make_room_def Let_def last_sequence_flush_imm)

lemma Memtable_Get_Nil: "Memtable_Get k s [] = NotFound"
  by (simp add: Memtable_Get_def)

lemma contents_make_room: "contents (make_room db) = contents db"
proof
  fix k
  show "contents (make_room db) k = contents db k"
    using sources_make_room [of db]
    by (auto simp: contents_def last_sequence_make_room Memtable_Get_Nil)
qed

lemma Memtable_Get_later:
  assumes "\<forall>e \<in> set src. sequence e \<le> s" and "s \<le> s'"
  shows "Memtable_Get k s' src = Memtable_Get k s src"
proof -
  have "find (\<lambda>e. userKey e = k \<and> sequence e \<le> s') src =
        find (\<lambda>e. userKey e = k \<and> sequence e \<le> s) src"
    using assms by (intro find_cong) auto
  then show ?thesis by (simp add: Memtable_Get_def)
qed

lemma sources_Get_later:
  assumes "\<forall>src \<in> set srcs. \<forall>e \<in> set src. sequence e \<le> s" and "s \<le> s'"
  shows "sources_Get k s' srcs = sources_Get k s srcs"
  using assms
proof (induction srcs)
  case Nil
  then show ?case by simp
next
  case (Cons src srcs)
  have "Memtable_Get k s' src = Memtable_Get k s src"
    using Cons.prems by (intro Memtable_Get_later) simp_all
  moreover have "sources_Get k s' srcs = sources_Get k s srcs"
    using Cons by simp
  ultimately show ?case by (simp split: lookup.splits)
qed

lemma Store_Write_fault:
  "io_fault db \<Longrightarrow>
     Store_Write options (Some ops) db = (Status kIOError ''log append failed'', db)"
  by (simp add: Store_Write_def)

lemma Store_Write_ok:
  "\<not> io_fault db \<Longrightarrow>
     Store_Write options (Some ops) db = (Status kOk [], make_room (append_and_apply options ops db))"
  by (simp add: Store_Write_def)

lemma append_and_apply_fields:
  "imm (append_and_apply options ops db) = imm db"
  "levels (append_and_apply options ops db) = levels db"
  "tables (append_and_apply options ops db) = tables db"
  "manifest_sequence (append_and_apply options ops db) = manifest_sequence db"
  "last_sequence (append_and_apply options ops db) = last_sequence db + length ops"
  "mem (append_and_apply options ops db) =
     fold (Memtable_Insert (user_comparator db)) (batch_entries (Suc (last_sequence db)) ops)
       (mem db)"
  "wal_old (append_and_apply options ops db) = wal_old db"
  "wal (append_and_apply options ops db) =
     wal db @ [batch_record (Suc (last_sequence db)) ops]"
  "io_fault (append_and_apply options ops db) = io_fault db"
  "buffer_budget (append_and_apply options ops db) = buffer_budget db"
  "user_comparator (append_and_apply options ops db) = user_comparator db"
  by (simp_all add: append_and_apply_def Let_def tables_def)

lemma sources_append_and_apply:
  "sources (append_and_apply options ops db) =
     fold (Memtable_Insert (user_comparator db)) (batch_entries (Suc (last_sequence db)) ops)
       (mem db)
       # tl (sources db)"
  by (simp add: sources_def append_and_apply_fields)

lemma last_sequence_append_and_apply:
  "last_sequence (append_and_apply options ops db) = last_sequence db + length ops"
  by (simp add: append_and_apply_fields)

lemma contents_append_and_apply:
  assumes "consistent db"
  shows "contents (append_and_apply options ops db) = apply_batch ops (contents db)"
proof
  fix k
  let ?s = "last_sequence db" and ?s' = "last_sequence db + length ops"
  have srcs: "sources db = mem db # tl (sources db)"
    by (simp add: sources_def)
  have bound: "\<forall>src \<in> set (sources db). \<forall>e \<in> set src. sequence e \<le> ?s"
    using assms by (simp add: consistent_def)
  have memb: "\<forall>x \<in> set (mem db). sequence x < Suc ?s"
    using bound by (auto simp: sources_def less_Suc_eq_le)
  have tlb: "\<forall>src \<in> set (tl (sources db)). \<forall>e \<in> set src. sequence e \<le> ?s"
    using bound by (auto simp: sources_def)
  have m: "Memtable_Get k ?s'
             (fold (Memtable_Insert (user_comparator db)) (batch_entries (Suc ?s) ops)
                (mem db)) =
             (case batch_effect k ops of NotFound \<Rightarrow> Memtable_Get k ?s' (mem db) | r \<Rightarrow> r)"
    using memb by (intro Memtable_Get_batch) simp_all
  have m0: "Memtable_Get k ?s' (mem db) = Memtable_Get k ?s (mem db)"
    using bound by (intro Memtable_Get_later) (auto simp: sources_def)
  have t: "sources_Get k ?s' (tl (sources db)) = sources_Get k ?s (tl (sources db))"
    using tlb by (intro sources_Get_later) simp_all
  have old: "sources_Get k ?s (sources db) =
               (case Memtable_Get k ?s (mem db) of
                  NotFound \<Rightarrow> sources_Get k ?s (tl (sources db))
                | Value v \<Rightarrow> Value v | Deleted \<Rightarrow> Deleted)"
    by (subst srcs) simp
  show "contents (append_and_apply options ops db) k = apply_batch ops (contents db) k"
    by (simp add: contents_def sources_append_and_apply last_sequence_append_and_apply m m0 t old
        apply_batch_effect split: lookup.splits)
qed

lemma set_fold_Memtable_Insert: "set (fold (Memtable_Insert cmp) es m) = set es \<union> set m"
  by (induction es arbitrary: m) (auto simp: set_Memtable_Insert)

lemma batch_entries_sequence:
  "e \<in> set (batch_entries s ops) \<Longrightarrow> s \<le> sequence e \<and> sequence e < s + length ops"
proof (induction ops arbitrary: s)
  case Nil
  then show ?case by simp
next
  case (Cons op ops)
  then show ?case by (cases op) fastforce+
qed

lemma set_sources:
  "set (sources db) = insert (mem db) (set_option (imm db) \<union> set (tables db))"
  by (auto simp: sources_def split: option.splits)

lemma batch_record_fields:
  "rec_sequence (batch_record s ops) = s" "rec_ops (batch_record s ops) = ops"
  "rec_length (batch_record s ops) = length ops" "intact (batch_record s ops)"
  by (simp_all add: intact_def batch_record_def)

lemma consistent_append_and_apply:
  assumes "consistent db"
  shows "consistent (append_and_apply options ops db)"
proof -
  let ?db' = "append_and_apply options ops db"
  note f = append_and_apply_fields [of options ops db]
  have old: "\<forall>src \<in> set (sources db). \<forall>e \<in> set src. sequence e \<le> last_sequence db"
    and w: "\<forall>r \<in> set (wal_old db @ wal db).
              intact r \<and> rec_sequence r + length (rec_ops r) \<le> Suc (last_sequence db)"
    and t: "\<forall>t \<in> set (tables db). \<forall>e \<in> set t. sequence e \<le> manifest_sequence db"
    and ms: "manifest_sequence db \<le> last_sequence db"
    using assms by (simp_all add: consistent_def)
  have 1: "\<forall>src \<in> set (sources ?db'). \<forall>e \<in> set src. sequence e \<le> last_sequence ?db'"
  proof (intro ballI)
    fix src e assume src: "src \<in> set (sources ?db')" and e: "e \<in> set src"
    show "sequence e \<le> last_sequence ?db'"
    proof (cases "src = mem ?db'")
      case True
      then have "e \<in> set (batch_entries (Suc (last_sequence db)) ops) \<or> e \<in> set (mem db)"
        using e by (simp add: f set_fold_Memtable_Insert)
      then show ?thesis
      proof
        assume "e \<in> set (batch_entries (Suc (last_sequence db)) ops)"
        from batch_entries_sequence [OF this] show ?thesis by (simp add: f)
      next
        assume "e \<in> set (mem db)"
        then have "sequence e \<le> last_sequence db" using old by (simp add: set_sources)
        then show ?thesis by (simp add: f)
      qed
    next
      case False
      then have "src \<in> set (sources db)"
        using src by (simp add: set_sources f)
      then have "sequence e \<le> last_sequence db" using old e by blast
      then show ?thesis by (simp add: f)
    qed
  qed
  have 2: "\<forall>r \<in> set (wal_old ?db' @ wal ?db').
              intact r \<and> rec_sequence r + length (rec_ops r) \<le> Suc (last_sequence ?db')"
  proof
    fix r assume "r \<in> set (wal_old ?db' @ wal ?db')"
    then have "r \<in> set (wal_old db @ wal db) \<or> r = batch_record (Suc (last_sequence db)) ops"
      by (auto simp: f)
    then show "intact r \<and> rec_sequence r + length (rec_ops r) \<le> Suc (last_sequence ?db')"
    proof
      assume "r \<in> set (wal_old db @ wal db)"
      with w have "intact r \<and> rec_sequence r + length (rec_ops r) \<le> Suc (last_sequence db)"
        by blast
      then show ?thesis by (simp add: f)
    next
      assume "r = batch_record (Suc (last_sequence db)) ops"
      then show ?thesis by (simp add: f batch_record_fields)
    qed
  qed
  have 3: "\<forall>t \<in> set (tables ?db'). \<forall>e \<in> set t. sequence e \<le> manifest_sequence ?db'"
    using t by (simp add: f)
  have 4: "manifest_sequence ?db' \<le> last_sequence ?db'"
    using ms by (simp add: f)
  show ?thesis
    unfolding consistent_def using 1 2 3 4 by (intro conjI)
qed

lemma flush_imm_fields:
  assumes "imm db = Some m" and "\<not> io_fault db"
  shows "last_sequence (flush_imm db) = last_sequence db"
    "manifest_sequence (flush_imm db) = last_sequence db"
    "wal_old (flush_imm db) = []" "wal (flush_imm db) = wal db"
    "mem (flush_imm db) = mem db" "imm (flush_imm db) = None"
    "wal_synced (flush_imm db) = wal_synced db - length (wal_old db)"
  using assms by (simp_all add: flush_imm_def)

lemma consistent_flush_imm:
  assumes "consistent db"
  shows "consistent (flush_imm db)"
proof (cases "imm db")
  case None
  then show ?thesis using assms by (simp add: flush_imm_def)
next
  case (Some m)
  show ?thesis
  proof (cases "io_fault db")
    case True
    then show ?thesis using assms Some by (simp add: flush_imm_def)
  next
    case False
    let ?db' = "flush_imm db"
    note f = flush_imm_fields [OF Some False] tables_flush_imm [OF Some False]
    have old: "\<forall>src \<in> set (sources db). \<forall>e \<in> set src. sequence e \<le> last_sequence db"
      and w: "\<forall>r \<in> set (wal_old db @ wal db).
                intact r \<and> rec_sequence r + length (rec_ops r) \<le> Suc (last_sequence db)"
      using assms by (simp_all add: consistent_def)
    have 1: "\<forall>src \<in> set (sources ?db'). \<forall>e \<in> set src. sequence e \<le> last_sequence ?db'"
      using old by (simp add: sources_flush_imm f)
    have 2: "\<forall>r \<in> set (wal_old ?db' @ wal ?db').
              intact r \<and> rec_sequence r + length (rec_ops r) \<le> Suc (last_sequence ?db')"
      using w by (simp add: f)
    have 3: "\<forall>t \<in> set (tables ?db'). \<forall>e \<in> set t. sequence e \<le> manifest_sequence ?db'"
    proof (intro ballI)
      fix t e assume "t \<in> set (tables ?db')" and e: "e \<in> set t"
      then have "t \<in> set (sources db)"
        using Some by (auto simp: f set_sources)
      with old e show "sequence e \<le> manifest_sequence ?db'"
        by (simp add: f)
    qed
    have 4: "manifest_sequence ?db' \<le> last_sequence ?db'"
      by (simp add: f)
    show ?thesis
      unfolding consistent_def using 1 2 3 4 by (intro conjI)
  qed
qed

lemma make_room_swap:
  assumes "buffer_budget db < memtable_size (mem db)" and "\<not> io_fault db"
  shows "make_room db =
           (flush_imm db)\<lparr>imm := Some (mem db), mem := [],
                           wal_old := wal db, wal := []\<rparr>"
proof -
  have "mem (flush_imm db) = mem db" "wal (flush_imm db) = wal db"
    by (simp_all add: flush_imm_def split: option.splits)
  then show ?thesis using assms by (simp add: make_room_def Let_def)
qed

lemma make_room_keep:
  assumes "\<not> (buffer_budget db < memtable_size (mem db) \<and> \<not> io_fault db)"
  shows "make_room db = db"
  using assms by (auto simp: make_room_def)

lemma consistent_make_room:
  assumes "consistent db"
  shows "consistent (make_room db)"
proof (cases "buffer_budget db < memtable_size (mem db) \<and> \<not> io_fault db")
  case False
  then show ?thesis using assms by (simp add: make_room_keep)
next
  case True
  let ?d = "flush_imm db"
  let ?db' = "?d\<lparr>imm := Some (mem db), mem := [], wal_old := wal db, wal := []\<rparr>"
  have c: "consistent ?d" using assms by (rule consistent_flush_imm)
  have md: "mem ?d = mem db" "wal ?d = wal db"
    by (simp_all add: flush_imm_def split: option.splits)
  have old: "\<forall>src \<in> set (sources ?d). \<forall>e \<in> set src. sequence e \<le> last_sequence ?d"
    and w: "\<forall>r \<in> set (wal_old ?d @ wal ?d).
              intact r \<and> rec_sequence r + length (rec_ops r) \<le> Suc (last_sequence ?d)"
    and t: "\<forall>t \<in> set (tables ?d). \<forall>e \<in> set t. sequence e \<le> manifest_sequence ?d"
    and ms: "manifest_sequence ?d \<le> last_sequence ?d"
    using c by (simp_all add: consistent_def)
  have tb: "tables ?db' = tables ?d" by (simp add: tables_def)
  have 1: "\<forall>src \<in> set (sources ?db'). \<forall>e \<in> set src. sequence e \<le> last_sequence ?db'"
  proof (intro ballI)
    fix src e assume "src \<in> set (sources ?db')" and e: "e \<in> set src"
    then have "src = [] \<or> src \<in> set (sources ?d)"
      by (auto simp: set_sources tb md)
    with e old show "sequence e \<le> last_sequence ?db'" by auto
  qed
  have 2: "\<forall>r \<in> set (wal_old ?db' @ wal ?db').
              intact r \<and> rec_sequence r + length (rec_ops r) \<le> Suc (last_sequence ?db')"
    using w by (simp add: md)
  have 3: "\<forall>t \<in> set (tables ?db'). \<forall>e \<in> set t. sequence e \<le> manifest_sequence ?db'"
    using t by (simp add: tb)
  have 4: "manifest_sequence ?db' \<le> last_sequence ?db'"
    using ms by simp
  have "consistent ?db'"
    unfolding consistent_def using 1 2 3 4 by (intro conjI)
  then show ?thesis using True by (simp add: make_room_swap)
qed

lemma consistent_Store_Write:
  "consistent db \<Longrightarrow> consistent (snd (Store_Write options batch db))"
  by (cases batch)
     (simp_all add: Store_Write_def consistent_make_room consistent_append_and_apply)

lemma consistent_new_store: "consistent (new_store cmp budget)"
  by (simp add: consistent_def new_store_def sources_def tables_def)

lemma replay_append:
  "replay cmp (rs @ [r]) m =
     fold (Memtable_Insert cmp) (batch_entries (rec_sequence r) (rec_ops r)) (replay cmp rs m)"
  by (simp add: replay_def)

lemma set_replay:
  "set (replay cmp rs m) =
     set m \<union> (\<Union>r \<in> set rs. set (batch_entries (rec_sequence r) (rec_ops r)))"
proof (induction rs rule: rev_induct)
  case Nil
  then show ?case by (simp add: replay_def)
next
  case (snoc r rs)
  then show ?case by (auto simp: replay_append set_fold_Memtable_Insert)
qed

lemma recovered_sequence_append:
  "recovered_sequence (rs @ [r]) s =
     max (recovered_sequence rs s) (rec_sequence r + length (rec_ops r) - 1)"
  by (simp add: recovered_sequence_def)

lemma recovered_sequence_ge: "s \<le> recovered_sequence rs s"
  by (induction rs rule: rev_induct) (simp_all add: recovered_sequence_append recovered_sequence_def)

lemma recovered_sequence_record:
  "r \<in> set rs \<Longrightarrow> rec_sequence r + length (rec_ops r) - 1 \<le> recovered_sequence rs s"
  by (induction rs rule: rev_induct) (auto simp: recovered_sequence_append)

lemma restart_fields:
  "wal_old (restart db) = []"
  "wal (restart db) = takeWhile intact (wal_old db @ wal db)"
  "mem (restart db) = replay (user_comparator db) (takeWhile intact (wal_old db @ wal db)) []"
  "imm (restart db) = None"
  "tables (restart db) = tables db"
  "levels (restart db) = levels db"
  "manifest_sequence (restart db) = manifest_sequence db"
  "last_sequence (restart db) =
     recovered_sequence (takeWhile intact (wal_old db @ wal db)) (manifest_sequence db)"
  "io_fault (restart db) = io_fault db"
  "buffer_budget (restart db) = buffer_budget db"
  "user_comparator (restart db) = user_comparator db"
  by (simp_all add: restart_def Let_def tables_def)

lemma sources_restart:
  "sources (restart db) =
     replay (user_comparator db) (takeWhile intact (wal_old db @ wal db)) [] # tables db"
  by (simp add: sources_def restart_fields)

lemma consistent_restart:
  assumes "\<forall>t \<in> set (tables db). \<forall>e \<in> set t. sequence e \<le> manifest_sequence db"
  shows "consistent (restart db)"
proof -
  let ?rs = "takeWhile intact (wal_old db @ wal db)"
  let ?s = "recovered_sequence ?rs (manifest_sequence db)"
  note f = restart_fields [of db]
  have rec: "rec_sequence r + length (rec_ops r) \<le> Suc ?s" if "r \<in> set ?rs" for r
    using recovered_sequence_record [OF that, of "manifest_sequence db"] by simp
  have 1: "\<forall>src \<in> set (sources (restart db)). \<forall>e \<in> set src.
              sequence e \<le> last_sequence (restart db)"
  proof (intro ballI)
    fix src e assume "src \<in> set (sources (restart db))" and e: "e \<in> set src"
    then have "src = replay (user_comparator db) ?rs [] \<or> src \<in> set (tables db)"
      by (simp add: sources_restart)
    then show "sequence e \<le> last_sequence (restart db)"
    proof
      assume "src = replay (user_comparator db) ?rs []"
      then obtain r where r: "r \<in> set ?rs"
        and "e \<in> set (batch_entries (rec_sequence r) (rec_ops r))"
        using e by (auto simp: set_replay)
      then have "sequence e < rec_sequence r + length (rec_ops r)"
        using batch_entries_sequence by blast
      with rec [OF r] show ?thesis by (simp add: f)
    next
      assume "src \<in> set (tables db)"
      with assms e have "sequence e \<le> manifest_sequence db" by blast
      also have "\<dots> \<le> ?s" by (rule recovered_sequence_ge)
      finally show ?thesis by (simp add: f)
    qed
  qed
  have 2: "\<forall>r \<in> set (wal_old (restart db) @ wal (restart db)).
              intact r \<and> rec_sequence r + length (rec_ops r) \<le> Suc (last_sequence (restart db))"
  proof
    fix r assume "r \<in> set (wal_old (restart db) @ wal (restart db))"
    then have r: "r \<in> set ?rs" by (simp add: f)
    then have "intact r" by (rule set_takeWhileD [THEN conjunct2])
    with rec [OF r]
    show "intact r \<and> rec_sequence r + length (rec_ops r) \<le> Suc (last_sequence (restart db))"
      by (simp add: f)
  qed
  have 3: "\<forall>t \<in> set (tables (restart db)). \<forall>e \<in> set t.
              sequence e \<le> manifest_sequence (restart db)"
    using assms by (simp add: f)
  have 4: "manifest_sequence (restart db) \<le> last_sequence (restart db)"
    by (simp add: f recovered_sequence_ge)
  show ?thesis
    unfolding consistent_def using 1 2 3 4 by (intro conjI)
qed

lemma not_intact_torn:
  "n < length ops \<Longrightarrow> \<not> intact ((batch_record s ops)\<lparr>rec_ops := take n ops\<rparr>)"
  by (simp add: intact_def batch_record_def)

lemma takeWhile_snoc_not: "\<not> P x \<Longrightarrow> takeWhile P (xs @ [x]) = takeWhile P xs"
  by (induction xs) simp_all

lemma restart_torn_Write:
  assumes "n < length ops"
  shows "restart (torn_Write ops n db) = restart db"
proof -
  let ?t = "(batch_record (Suc (last_sequence db)) ops)\<lparr>rec_ops := take n ops\<rparr>"
  have "takeWhile intact ((wal_old db @ wal db) @ [?t]) = takeWhile intact (wal_old db @ wal db)"
    using not_intact_torn [OF assms] by (rule takeWhile_snoc_not)
  then show ?thesis
    by (simp add: restart_def torn_Write_def Let_def)
qed

lemma crash_all:
  assumes "length (wal_old db @ wal db) \<le> wal_synced db + extra"
  shows "crash extra db = db"
  using assms by (simp add: crash_def Let_def)

lemma records_after_write:
  "\<exists>R. wal_old (make_room (append_and_apply options ops db))
          @ wal (make_room (append_and_apply options ops db))
        = R @ [batch_record (Suc (last_sequence db)) ops]
      \<and> set R \<subseteq> set (wal_old db @ wal db)"
proof (cases "buffer_budget (append_and_apply options ops db)
                < memtable_size (mem (append_and_apply options ops db))
              \<and> \<not> io_fault (append_and_apply options ops db)")
  case True
  then have "wal_old (make_room (append_and_apply options ops db))
          @ wal (make_room (append_and_apply options ops db))
        = wal db @ [batch_record (Suc (last_sequence db)) ops]"
    by (simp add: make_room_swap append_and_apply_fields)
  then show ?thesis by auto
next
  case False
  then have "wal_old (make_room (append_and_apply options ops db))
          @ wal (make_room (append_and_apply options ops db))
        = (wal_old db @ wal db) @ [batch_record (Suc (last_sequence db)) ops]"
    by (simp add: make_room_keep append_and_apply_fields)
  then show ?thesis by blast
qed

lemma contents_restart_after_write:
  assumes c: "consistent db"
    and db': "db' = make_room (append_and_apply options ops db)"
    and k: "batch_effect k ops \<noteq> NotFound"
  shows "contents (restart db') k = apply_batch ops (contents db) k"
proof -
  let ?s = "Suc (last_sequence db)"
  let ?rec = "batch_record ?s ops"
  let ?cmp = "user_comparator db'"
  obtain R where R: "wal_old db' @ wal db' = R @ [?rec]"
    and sub: "set R \<subseteq> set (wal_old db @ wal db)"
    using records_after_write [of options ops db] db' by blast
  have w: "\<forall>r \<in> set (wal_old db @ wal db).
              intact r \<and> rec_sequence r + length (rec_ops r) \<le> Suc (last_sequence db)"
    using c by (simp add: consistent_def)
  have "\<forall>r \<in> set (R @ [?rec]). intact r"
    using w sub by (auto simp: batch_record_fields)
  then have tw: "takeWhile intact (wal_old db' @ wal db') = R @ [?rec]"
    by (simp add: R takeWhile_eq_all_conv [THEN iffD2] del: takeWhile_append)
  let ?snap = "last_sequence (restart db')"
  have mem': "mem (restart db') =
                fold (Memtable_Insert ?cmp) (batch_entries ?s ops) (replay ?cmp R [])"
    by (simp add: restart_fields tw replay_append batch_record_fields)
  have below: "\<forall>x \<in> set (replay ?cmp R []). sequence x < ?s"
  proof
    fix x assume "x \<in> set (replay ?cmp R [])"
    then obtain r where r: "r \<in> set R"
      and "x \<in> set (batch_entries (rec_sequence r) (rec_ops r))"
      by (auto simp: set_replay)
    then have "sequence x < rec_sequence r + length (rec_ops r)"
      using batch_entries_sequence by blast
    moreover have "rec_sequence r + length (rec_ops r) \<le> ?s"
      using w sub r by blast
    ultimately show "sequence x < ?s" by simp
  qed
  have "rec_sequence ?rec + length (rec_ops ?rec) - 1 \<le> ?snap"
    by (simp add: restart_fields tw recovered_sequence_append del: One_nat_def)
  then have snap: "?s + length ops \<le> Suc ?snap"
    by (simp add: batch_record_fields)
  have "Memtable_Get k ?snap (mem (restart db')) =
          (case batch_effect k ops of NotFound \<Rightarrow> Memtable_Get k ?snap (replay ?cmp R []) | r \<Rightarrow> r)"
    unfolding mem' using below snap by (rule Memtable_Get_batch)
  then have "sources_Get k ?snap (sources (restart db')) = batch_effect k ops"
    using k by (simp add: sources_def restart_fields split: lookup.splits)
  then show ?thesis
    using k by (simp add: contents_def apply_batch_effect split: lookup.splits)
qed

section \<open>The native methods on the engine\<close>

lemma batch_effect_touched: "batch_effect k ops \<noteq> NotFound \<longleftrightarrow> k \<in> op_key ` set ops"
proof (induction ops)
  case Nil
  then show ?case by simp
next
  case (Cons op ops)
  then show ?case by (cases op) (auto split: lookup.splits)
qed

lemma leveldb_fields:
  "DB_Get leveldb = Store_Get" "DB_Put leveldb = Store_Put" "DB_Delete leveldb = Store_Delete"
  "DB_Write leveldb = Store_Write" "ToString leveldb = Store_ToString"
  "default_WriteOptions leveldb = Store_WriteOptions"
  "default_ReadOptions leveldb = Store_ReadOptions"
  "DB_NewIterator leveldb = Store_NewIterator"
  "Iterator_Valid leveldb = Iter_Valid" "Iterator_key leveldb = Iter_key"
  "Iterator_value leveldb = Iter_value" "Iterator_Next leveldb = Iter_Next"
  "Iterator_Prev leveldb = Iter_Prev" "Iterator_SeekToFirst leveldb = Iter_SeekToFirst"
  "Iterator_SeekToLast leveldb = Iter_SeekToLast" "DB_Open leveldb = Store_Open"
  by (simp_all add: leveldb_def)

lemma get_leveldb:
  assumes "nativeDb jdb = Some db"
  shows "Java_org_tron_leveldb_DB_get leveldb jdb k = (Returned (contents db k), jdb)"
  using assms
  by (simp add: Java_org_tron_leveldb_DB_get_def leveldb_fields Store_Get_def contents_def
      check_def ok_def IsNotFound_def Let_def split: lookup.splits)

lemma write_leveldb:
  assumes "nativeDb jdb = Some db" and "wb_nativeHandle jbatch = Some ops" and "\<not> io_fault db"
  shows "Java_org_tron_leveldb_DB_write leveldb jdb jbatch s =
           (Returned (), jdb\<lparr>nativeDb :=
              Some (make_room (append_and_apply \<lparr>sync = s\<rparr> ops db))\<rparr>)"
  using assms
  by (simp add: Java_org_tron_leveldb_DB_write_def leveldb_fields Store_Write_def
      Store_WriteOptions_def check_def ok_def)

lemma write_leveldb_fault:
  assumes "nativeDb jdb = Some db" and "wb_nativeHandle jbatch = Some ops" and "io_fault db"
  shows "Java_org_tron_leveldb_DB_write leveldb jdb jbatch s =
           (Thrown (Exception RuntimeException ''IOError: log append failed''), jdb)"
  using assms
  by (simp add: Java_org_tron_leveldb_DB_write_def leveldb_fields Store_Write_def
      Store_WriteOptions_def check_def ok_def IsNotFound_def IsCorruption_def c_str_def)

lemma put_leveldb:
  assumes "nativeDb jdb = Some db" and "\<not> io_fault db"
  shows "Java_org_tron_leveldb_DB_put___3B_3B leveldb jdb k v =
           (Returned (), jdb\<lparr>nativeDb :=
              Some (make_room (append_and_apply \<lparr>sync = False\<rparr> [BatchPut k v] db))\<rparr>)"
    and "Java_org_tron_leveldb_DB_put___3B_3BZ leveldb jdb k v s =
           (Returned (), jdb\<lparr>nativeDb :=
              Some (make_room (append_and_apply \<lparr>sync = s\<rparr> [BatchPut k v] db))\<rparr>)"
    and "Java_org_tron_leveldb_DB_delete leveldb jdb k s =
           (Returned (), jdb\<lparr>nativeDb :=
              Some (make_room (append_and_apply \<lparr>sync = s\<rparr> [BatchDelete k] db))\<rparr>)"
  using assms
  by (simp_all add: Java_org_tron_leveldb_DB_put___3B_3B_def
      Java_org_tron_leveldb_DB_put___3B_3BZ_def Java_org_tron_leveldb_DB_delete_def
      leveldb_fields Store_Put_def Store_Delete_def Store_Write_def Store_WriteOptions_def)

lemma contents_after_write:
  "consistent db \<Longrightarrow>
     contents (make_room (append_and_apply options ops db)) = apply_batch ops (contents db)"
  by (simp add: contents_make_room contents_append_and_apply)

lemma synced_after_write:
  "length (wal_old (make_room (append_and_apply \<lparr>sync = True\<rparr> ops db))
         @ wal (make_room (append_and_apply \<lparr>sync = True\<rparr> ops db)))
     \<le> wal_synced (make_room (append_and_apply \<lparr>sync = True\<rparr> ops db))"
proof -
  let ?d = "append_and_apply \<lparr>sync = True\<rparr> ops db"
  have d: "wal_synced ?d = length (wal_old ?d @ wal ?d)"
    by (simp add: append_and_apply_def Let_def)
  show ?thesis
  proof (cases "buffer_budget ?d < memtable_size (mem ?d) \<and> \<not> io_fault ?d")
    case False
    then show ?thesis using d by (simp add: make_room_keep)
  next
    case True
    have "wal_synced (flush_imm ?d) \<ge> length (wal ?d)"
      using d by (simp add: flush_imm_def split: option.splits)
    then show ?thesis using True by (simp add: make_room_swap)
  qed
qed

lemma last_record_after_write:
  "last (wal_old (make_room (append_and_apply options ops db))
         @ wal (make_room (append_and_apply options ops db)))
     = batch_record (Suc (last_sequence db)) ops"
  using records_after_write [of options ops db] by auto

section \<open>Walking an iterator\<close>

lemma visible_current [simp]: "visible (it\<lparr>it_current := c\<rparr>) = visible it"
  by (rule ext) (simp add: visible_def)

lemma live_keys_current [simp]: "live_keys (it\<lparr>it_current := c\<rparr>) = live_keys it"
  by (simp add: live_keys_def)

lemma shown_current [simp]: "shown (it\<lparr>it_current := c\<rparr>) = shown it"
  by (rule ext) (simp add: shown_def)

lemma it_less_current [simp]: "it_less (it\<lparr>it_current := c\<rparr>) = it_less it"
  by (simp add: it_less_def)

lemma hasNext_leveldb:
  assumes "it_nativeHandle jiter = Some it"
  shows "fst (Java_org_tron_leveldb_DBIterator_hasNext leveldb jiter)
           = Returned (it_current it \<noteq> None)"
    and "fst (Java_org_tron_leveldb_DBIterator_hasPrev leveldb jiter)
           = Returned (it_current it \<noteq> None)"
  using assms
  by (simp_all add: Java_org_tron_leveldb_DBIterator_hasNext_def
      Java_org_tron_leveldb_DBIterator_hasPrev_def leveldb_fields Iter_Valid_def)

lemma next_leveldb:
  assumes "it_nativeHandle jiter = Some it" and "it_current it = Some c"
  shows "Java_org_tron_leveldb_DBIterator_next leveldb jiter =
           (Returned (shown it c),
            jiter\<lparr>it_nativeHandle :=
              Some (it\<lparr>it_current :=
                      least (it_less it) (filter (\<lambda>k. it_less it c k) (live_keys it))\<rparr>)\<rparr>)"
  using assms
  by (simp add: Java_org_tron_leveldb_DBIterator_next_def leveldb_fields Iter_Valid_def
      Iter_key_def Iter_value_def Iter_Next_def shown_def Let_def)

lemma peekPrev_leveldb:
  assumes "it_nativeHandle jiter = Some it" and "it_current it = Some c"
  shows "fst (Java_org_tron_leveldb_DBIterator_peekPrev leveldb jiter) = Returned (shown it c)"
  using assms
  by (simp add: Java_org_tron_leveldb_DBIterator_peekPrev_def leveldb_fields Iter_Valid_def
      Iter_key_def Iter_value_def shown_def Let_def)

lemma prev_leveldb:
  assumes "it_nativeHandle jiter = Some it" and "it_current it = Some c"
  shows "Java_org_tron_leveldb_DBIterator_prev leveldb jiter =
           (Returned (),
            jiter\<lparr>it_nativeHandle :=
              Some (it\<lparr>it_current :=
                      greatest (it_less it) (filter (\<lambda>k. it_less it k c) (live_keys it))\<rparr>)\<rparr>)"
  using assms
  by (simp add: Java_org_tron_leveldb_DBIterator_prev_def leveldb_fields Iter_Valid_def
      Iter_Prev_def)

lemma forward_loop_invalid:
  assumes "it_nativeHandle jiter = Some it" and "it_current it = None"
  shows "forward_loop leveldb (Suc n) jiter = Some (Returned [])"
  using assms by (simp add: hasNext_leveldb)

lemma backward_loop_invalid:
  assumes "it_nativeHandle jiter = Some it" and "it_current it = None"
  shows "backward_loop leveldb (Suc n) jiter = Some (Returned [])"
  using assms by (simp add: hasNext_leveldb)

lemma total_order_converse: "total_order lt \<Longrightarrow> total_order (\<lambda>a b. lt b a)"
  unfolding total_order_def by blast

lemma total_order_bytewise: "total_order (key_less None)"
  unfolding total_order_def key_less_def by auto

lemma least_None: "least lt ks = None \<longleftrightarrow> ks = []"
  by (induction ks) (auto split: option.splits)

lemma least_in: "least lt ks = Some m \<Longrightarrow> m \<in> set ks"
  by (induction ks arbitrary: m) (auto split: option.splits if_splits)

lemma least_Some:
  assumes "total_order lt" and "m \<in> set ks" and "\<forall>y \<in> set ks. y = m \<or> lt m y"
  shows "least lt ks = Some m"
  using assms(2,3)
proof (induction ks)
  case Nil
  then show ?case by simp
next
  case (Cons k ks)
  have irr: "\<not> lt a a" and asym: "lt a b \<Longrightarrow> \<not> lt b a" for a b
    using assms(1) unfolding total_order_def by blast+
  show ?case
  proof (cases "least lt ks")
    case None
    then have "ks = []" by (simp add: least_None)
    then show ?thesis using Cons.prems by simp
  next
    case (Some m')
    then have m': "m' \<in> set ks" by (rule least_in)
    show ?thesis
    proof (cases "m = k")
      case True
      then have "m' = k \<or> lt k m'" using Cons.prems(2) m' by auto
      then show ?thesis using Some True irr by auto
    next
      case False
      then have "m \<in> set ks" using Cons.prems(1) by simp
      moreover have "\<forall>y \<in> set ks. y = m \<or> lt m y" using Cons.prems(2) by simp
      ultimately have "least lt ks = Some m" by (rule Cons.IH)
      then have "m' = m" using Some by simp
      moreover have "lt m k" using Cons.prems(2) False by auto
      ultimately show ?thesis using Some asym by auto
    qed
  qed
qed

lemma set_ascending:
  assumes "total_order lt"
  shows "set (ascending lt ks) = set ks"
proof (induction ks)
  case Nil
  then show ?case by simp
next
  case (Cons k ks)
  have "a = b \<or> lt a b \<or> lt b a" for a b
    using assms unfolding total_order_def by blast
  then show ?case using Cons by auto
qed

lemma sorted_ascending:
  assumes "total_order lt"
  shows "sorted_wrt lt (ascending lt ks)"
proof (induction ks)
  case Nil
  then show ?case by simp
next
  case (Cons k ks)
  have trans: "lt a b \<Longrightarrow> lt b c \<Longrightarrow> lt a c" for a b c
    using assms unfolding total_order_def by blast
  show ?case
    using Cons trans by (auto simp: sorted_wrt_append sorted_wrt_filter)
qed

lemma distinct_sorted_wrt:
  assumes "total_order lt" and "sorted_wrt lt xs"
  shows "distinct xs"
  using assms(2)
proof (induction xs)
  case Nil
  then show ?case by simp
next
  case (Cons x xs)
  have "\<not> lt a a" for a using assms(1) unfolding total_order_def by blast
  then show ?case using Cons by auto
qed

lemma length_ascending:
  assumes "total_order lt"
  shows "length (ascending lt ks) \<le> length ks"
proof -
  have "distinct (ascending lt ks)"
    by (rule distinct_sorted_wrt [OF assms sorted_ascending [OF assms]])
  then have "length (ascending lt ks) = card (set ks)"
    using set_ascending [OF assms, of ks] by (metis distinct_card)
  then show ?thesis by (simp add: card_length)
qed

lemma least_above:
  assumes "total_order lt" and "sorted_wrt lt (pre @ c # post)"
    and "set (pre @ c # post) = set ks"
  shows "least lt (filter (\<lambda>k. lt c k) ks) = (case post of [] \<Rightarrow> None | p # ps \<Rightarrow> Some p)"
proof -
  have irr: "\<not> lt a a" and asym: "lt a b \<Longrightarrow> \<not> lt b a" for a b
    using assms(1) unfolding total_order_def by blast+
  have pre: "\<forall>x \<in> set pre. lt x c" and post: "\<forall>y \<in> set post. lt c y"
    using assms(2) by (auto simp: sorted_wrt_append)
  show ?thesis
  proof (cases post)
    case Nil
    have "\<not> lt c y" if "y \<in> set ks" for y
    proof -
      have "y \<in> set pre \<or> y = c" using that assms(3) Nil by auto
      then show ?thesis using pre irr asym by auto
    qed
    then have "filter (\<lambda>k. lt c k) ks = []" by (simp add: filter_empty_conv)
    then show ?thesis using Nil by simp
  next
    case (Cons p ps)
    have ps: "\<forall>y \<in> set ps. lt p y"
      using assms(2) Cons by (auto simp: sorted_wrt_append)
    have "p \<in> set ks" using assms(3) Cons by auto
    moreover have "lt c p" using post Cons by simp
    ultimately have 1: "p \<in> set (filter (\<lambda>k. lt c k) ks)" by simp
    have 2: "\<forall>y \<in> set (filter (\<lambda>k. lt c k) ks). y = p \<or> lt p y"
    proof
      fix y assume "y \<in> set (filter (\<lambda>k. lt c k) ks)"
      then have y: "y \<in> set ks" "lt c y" by simp_all
      then have "y \<in> set pre \<or> y = c \<or> y = p \<or> y \<in> set ps"
        using assms(3) Cons by auto
      then show "y = p \<or> lt p y" using y(2) pre ps irr asym by auto
    qed
    show ?thesis using least_Some [OF assms(1) 1 2] Cons by simp
  qed
qed

lemma least_first:
  assumes "total_order lt" and "sorted_wrt lt xs" and "set xs = set ks"
  shows "least lt ks = (case xs of [] \<Rightarrow> None | p # ps \<Rightarrow> Some p)"
proof (cases xs)
  case Nil
  then show ?thesis using assms(3) by simp
next
  case (Cons p ps)
  have "p \<in> set ks" using assms(3) Cons by auto
  moreover have "\<forall>y \<in> set ks. y = p \<or> lt p y"
    using assms(2,3) Cons by auto
  ultimately show ?thesis using least_Some [OF assms(1)] Cons by simp
qed

lemma forward_loop_from:
  assumes "it_nativeHandle jiter = Some it" and "total_order (it_less it)"
    and "sorted_wrt (it_less it) (pre @ c # post)"
    and "set (pre @ c # post) = set (live_keys it)"
    and "it_current it = Some c" and "length post + 2 \<le> n"
  shows "forward_loop leveldb n jiter = Some (Returned (map (shown it) (c # post)))"
  using assms
proof (induction post arbitrary: pre c n jiter it)
  case Nil
  let ?it' = "it\<lparr>it_current :=
                  least (it_less it) (filter (\<lambda>k. it_less it c k) (live_keys it))\<rparr>"
  let ?j' = "jiter\<lparr>it_nativeHandle := Some ?it'\<rparr>"
  obtain m where n: "n = Suc (Suc m)"
    using Nil.prems(6) by (cases n; cases "n - 1") simp_all
  have h: "it_nativeHandle ?j' = Some ?it'" by simp
  have "it_current ?it' = None"
    using least_above [OF Nil.prems(2,3,4)] by simp
  then have "forward_loop leveldb (Suc m) ?j' = Some (Returned [])"
    using forward_loop_invalid [OF h] by simp
  then show ?case
    using Nil.prems(1,5) by (simp add: n hasNext_leveldb next_leveldb)
next
  case (Cons p ps)
  let ?it' = "it\<lparr>it_current :=
                  least (it_less it) (filter (\<lambda>k. it_less it c k) (live_keys it))\<rparr>"
  let ?j' = "jiter\<lparr>it_nativeHandle := Some ?it'\<rparr>"
  obtain m where n: "n = Suc m" and m: "length ps + 2 \<le> m"
    using Cons.prems(6) by (cases n) simp_all
  have h: "it_nativeHandle ?j' = Some ?it'" by simp
  have cur: "it_current ?it' = Some p"
    using least_above [OF Cons.prems(2,3,4)] by simp
  have o: "total_order (it_less ?it')" using Cons.prems(2) by simp
  have s: "sorted_wrt (it_less ?it') ((pre @ [c]) @ p # ps)" using Cons.prems(3) by simp
  have e: "set ((pre @ [c]) @ p # ps) = set (live_keys ?it')" using Cons.prems(4) by simp
  have ih: "forward_loop leveldb m ?j' = Some (Returned (map (shown it) (p # ps)))"
    using Cons.IH [OF h o s e cur m] by simp
  have step: "forward_loop leveldb (Suc m) jiter =
      (case forward_loop leveldb m ?j' of
         None \<Rightarrow> None
       | Some (Returned kvs) \<Rightarrow> Some (Returned (shown it c # kvs))
       | Some (Thrown e) \<Rightarrow> Some (Thrown e)
       | Some Aborted \<Rightarrow> Some Aborted)"
    using Cons.prems(1,5) by (simp add: hasNext_leveldb next_leveldb)
  show ?case unfolding n step ih by simp
qed

lemma backward_loop_from:
  assumes "it_nativeHandle jiter = Some it" and "total_order (it_less it)"
    and "sorted_wrt (\<lambda>a b. it_less it b a) (pre @ c # post)"
    and "set (pre @ c # post) = set (live_keys it)"
    and "it_current it = Some c" and "length post + 2 \<le> n"
  shows "backward_loop leveldb n jiter = Some (Returned (map (shown it) (c # post)))"
  using assms
proof (induction post arbitrary: pre c n jiter it)
  case Nil
  let ?it' = "it\<lparr>it_current :=
                  greatest (it_less it) (filter (\<lambda>k. it_less it k c) (live_keys it))\<rparr>"
  let ?j' = "jiter\<lparr>it_nativeHandle := Some ?it'\<rparr>"
  obtain m where n: "n = Suc (Suc m)"
    using Nil.prems(6) by (cases n; cases "n - 1") simp_all
  have h: "it_nativeHandle ?j' = Some ?it'" by simp
  have "it_current ?it' = None"
    using least_above [OF total_order_converse [OF Nil.prems(2)] Nil.prems(3,4)]
    by (simp add: greatest_def)
  then have "backward_loop leveldb (Suc m) ?j' = Some (Returned [])"
    using backward_loop_invalid [OF h] by simp
  then show ?case
    using Nil.prems(1,5) by (simp add: n hasNext_leveldb peekPrev_leveldb prev_leveldb)
next
  case (Cons p ps)
  let ?it' = "it\<lparr>it_current :=
                  greatest (it_less it) (filter (\<lambda>k. it_less it k c) (live_keys it))\<rparr>"
  let ?j' = "jiter\<lparr>it_nativeHandle := Some ?it'\<rparr>"
  obtain m where n: "n = Suc m" and m: "length ps + 2 \<le> m"
    using Cons.prems(6) by (cases n) simp_all
  have h: "it_nativeHandle ?j' = Some ?it'" by simp
  have cur: "it_current ?it' = Some p"
    using least_above [OF total_order_converse [OF Cons.prems(2)] Cons.prems(3,4)]
    by (simp add: greatest_def)
  have o: "total_order (it_less ?it')" using Cons.prems(2) by simp
  have s: "sorted_wrt (\<lambda>a b. it_less ?it' b a) ((pre @ [c]) @ p # ps)"
    using Cons.prems(3) by simp
  have e: "set ((pre @ [c]) @ p # ps) = set (live_keys ?it')" using Cons.prems(4) by simp
  have ih: "backward_loop leveldb m ?j' = Some (Returned (map (shown it) (p # ps)))"
    using Cons.IH [OF h o s e cur m] by simp
  have step: "backward_loop leveldb (Suc m) jiter =
      (case backward_loop leveldb m ?j' of
         None \<Rightarrow> None
       | Some (Returned kvs) \<Rightarrow> Some (Returned (shown it c # kvs))
       | Some (Thrown e) \<Rightarrow> Some (Thrown e)
       | Some Aborted \<Rightarrow> Some Aborted)"
    using Cons.prems(1,5) by (simp add: hasNext_leveldb peekPrev_leveldb prev_leveldb)
  show ?case unfolding n step ih by simp
qed

lemma forward_iteration_leveldb:
  assumes "it_nativeHandle jiter = Some it" and "total_order (it_less it)"
    and "length (live_keys it) < n"
  shows "forward_iteration leveldb n jiter =
           Some (Returned (map (shown it) (ascending (it_less it) (live_keys it))))"
proof -
  let ?xs = "ascending (it_less it) (live_keys it)"
  let ?it' = "it\<lparr>it_current := least (it_less it) (live_keys it)\<rparr>"
  let ?j' = "jiter\<lparr>it_nativeHandle := Some ?it'\<rparr>"
  have h: "it_nativeHandle ?j' = Some ?it'" by simp
  have seek: "forward_iteration leveldb n jiter = forward_loop leveldb n ?j'"
    using assms(1)
    by (simp add: forward_iteration_def Java_org_tron_leveldb_DBIterator_seekToFirst_def
        leveldb_fields Iter_SeekToFirst_def)
  have srt: "sorted_wrt (it_less it) ?xs" using assms(2) by (rule sorted_ascending)
  have st: "set ?xs = set (live_keys it)" using assms(2) by (rule set_ascending)
  have len: "length ?xs \<le> length (live_keys it)" using assms(2) by (rule length_ascending)
  note first = least_first [OF assms(2) srt st]
  show ?thesis
  proof (cases ?xs)
    case Nil
    obtain m where "n = Suc m" using assms(3) by (cases n) simp_all
    moreover have "it_current ?it' = None" using first Nil by simp
    ultimately have "forward_loop leveldb n ?j' = Some (Returned [])"
      using forward_loop_invalid [OF h] by simp
    then show ?thesis using Nil by (simp add: seek)
  next
    case (Cons c post)
    have cur: "it_current ?it' = Some c" using first Cons by simp
    have o: "total_order (it_less ?it')" using assms(2) by simp
    have s: "sorted_wrt (it_less ?it') ([] @ c # post)" using srt Cons by simp
    have e: "set ([] @ c # post) = set (live_keys ?it')" using st Cons by simp
    have f: "length post + 2 \<le> n" using len assms(3) Cons by simp
    have "forward_loop leveldb n ?j' = Some (Returned (map (shown it) (c # post)))"
      using forward_loop_from [OF h o s e cur f] by simp
    then show ?thesis using Cons by (simp add: seek)
  qed
qed

lemma backward_iteration_leveldb:
  assumes "it_nativeHandle jiter = Some it" and "total_order (it_less it)"
    and "length (live_keys it) < n"
  shows "backward_iteration leveldb n jiter =
           Some (Returned (rev (map (shown it) (ascending (it_less it) (live_keys it)))))"
proof -
  let ?xs = "rev (ascending (it_less it) (live_keys it))"
  let ?it' = "it\<lparr>it_current := greatest (it_less it) (live_keys it)\<rparr>"
  let ?j' = "jiter\<lparr>it_nativeHandle := Some ?it'\<rparr>"
  have h: "it_nativeHandle ?j' = Some ?it'" by simp
  have seek: "backward_iteration leveldb n jiter = backward_loop leveldb n ?j'"
    using assms(1)
    by (simp add: backward_iteration_def Java_org_tron_leveldb_DBIterator_seekToLast_def
        leveldb_fields Iter_SeekToLast_def)
  have srt: "sorted_wrt (\<lambda>a b. it_less it b a) ?xs"
    using sorted_ascending [OF assms(2), of "live_keys it"] by (simp add: sorted_wrt_rev)
  have st: "set ?xs = set (live_keys it)"
    using set_ascending [OF assms(2), of "live_keys it"] by simp
  have len: "length ?xs \<le> length (live_keys it)"
    using length_ascending [OF assms(2), of "live_keys it"] by simp
  note first = least_first [OF total_order_converse [OF assms(2)] srt st]
  show ?thesis
  proof (cases ?xs)
    case Nil
    obtain m where "n = Suc m" using assms(3) by (cases n) simp_all
    moreover have "it_current ?it' = None" using first Nil by (simp add: greatest_def)
    ultimately have "backward_loop leveldb n ?j' = Some (Returned [])"
      using backward_loop_invalid [OF h] by simp
    then show ?thesis using Nil by (simp add: seek rev_map)
  next
    case (Cons c post)
    have cur: "it_current ?it' = Some c" using first Cons by (simp add: greatest_def)
    have o: "total_order (it_less ?it')" using assms(2) by simp
    have s: "sorted_wrt (\<lambda>a b. it_less ?it' b a) ([] @ c # post)" using srt Cons by simp
    have e: "set ([] @ c # post) = set (live_keys ?it')" using st Cons by simp
    have f: "length post + 2 \<le> n" using len assms(3) Cons by simp
    have "backward_loop leveldb n ?j' = Some (Returned (map (shown it) (c # post)))"
      using backward_loop_from [OF h o s e cur f] by simp
    then show ?thesis using Cons by (simp add: seek rev_map)
  qed
qed

lemma newest_Some: "newest k s es = Some e \<Longrightarrow> e \<in> set es \<and> userKey e = k"
  by (induction es arbitrary: e) (auto split: option.splits if_splits)

lemma live_keys_visible: "k \<in> set (live_keys it) \<longleftrightarrow> visible it k \<noteq> None"
proof
  assume "k \<in> set (live_keys it)"
  then show "visible it k \<noteq> None" by (simp add: live_keys_def)
next
  assume v: "visible it k \<noteq> None"
  then obtain e where "newest k (it_snapshot it) (concat (it_version it)) = Some e"
    by (auto simp: visible_def split: option.splits)
  then have "e \<in> set (concat (it_version it))" "userKey e = k"
    using newest_Some by blast+
  then have "k \<in> userKey ` set (concat (it_version it))" by blast
  with v show "k \<in> set (live_keys it)" by (simp add: live_keys_def)
qed

lemma set_shown:
  assumes "total_order lt"
  shows "set (map (shown it) (ascending lt (live_keys it)))
     = {(k, v). visible it k = Some v}"
proof -
  have "shown it ` set (live_keys it) = {(k, v). visible it k = Some v}"
  proof (intro set_eqI iffI)
    fix p assume "p \<in> shown it ` set (live_keys it)"
    then obtain k where k: "k \<in> set (live_keys it)" and p: "p = shown it k" by blast
    from k obtain v where "visible it k = Some v" by (auto simp: live_keys_visible)
    then show "p \<in> {(k, v). visible it k = Some v}" by (simp add: p shown_def)
  next
    fix p assume "p \<in> {(k, v). visible it k = Some v}"
    then obtain k v where p: "p = (k, v)" and v: "visible it k = Some v" by blast
    then have "k \<in> set (live_keys it)" by (simp add: live_keys_visible)
    moreover have "p = shown it k" by (simp add: p v shown_def)
    ultimately show "p \<in> shown it ` set (live_keys it)" by blast
  qed
  then show ?thesis by (simp add: set_ascending [OF assms])
qed

lemma fst_shown: "map fst (map (shown it) ks) = ks"
  by (induction ks) (simp_all add: shown_def)

section \<open>Compaction, crashes and the example store\<close>


lemma set_merge_tables: "set (merge_tables cmp ts) = set (concat ts)"
  by (simp add: merge_tables_def set_fold_Memtable_Insert)

lemma set_drop_superseded: "set (drop_superseded es) \<subseteq> set es"
  by (induction es rule: drop_superseded.induct) auto

lemma consistent_compact:
  assumes "consistent db"
  shows "consistent (compact L db)"
proof (cases "io_fault db \<or> length (levels db) \<le> L")
  case True
  then show ?thesis using assms by (simp add: compact_def)
next
  case False
  define ls where "ls = levels db"
  define lower where "lower = (if Suc L < length ls then ls ! Suc L else [])"
  define out where "out =
    filter (\<lambda>e. tagged e \<noteq> DELETE
                \<or> userKey e \<in> set (map userKey (concat (concat (drop (Suc (Suc L)) ls)))))
      (drop_superseded (merge_tables (user_comparator db) (ls ! L @ lower)))"
  let ?db' = "db\<lparr>levels := take L ls @ [[], [out]] @ drop (Suc (Suc L)) ls,
                 manifest_sequence := last_sequence db\<rparr>"
  have eq: "compact L db = ?db'"
    using False by (simp add: compact_def Let_def ls_def lower_def out_def)
  have L: "L < length ls" using False by (simp add: ls_def)
  have old: "\<forall>src \<in> set (sources db). \<forall>e \<in> set src. sequence e \<le> last_sequence db"
    and w: "\<forall>r \<in> set (wal_old db @ wal db).
              intact r \<and> rec_sequence r + length (rec_ops r) \<le> Suc (last_sequence db)"
    using assms by (simp_all add: consistent_def)
  have tabs: "\<forall>t \<in> set (tables db). \<forall>e \<in> set t. sequence e \<le> last_sequence db"
    using old by (auto simp: set_sources)
  have level_in: "set (ls ! i) \<subseteq> set (tables db)" if "i < length ls" for i
  proof
    fix t assume "t \<in> set (ls ! i)"
    moreover have "ls ! i \<in> set ls" using that by simp
    ultimately have "t \<in> \<Union> (set ` set ls)" by blast
    then show "t \<in> set (tables db)" by (simp add: tables_def ls_def)
  qed
  have upper_in: "set (ls ! L) \<subseteq> set (tables db)"
    using L by (rule level_in)
  have lower_in: "set lower \<subseteq> set (tables db)"
    using level_in [of "Suc L"] by (cases "Suc L < length ls") (simp_all add: lower_def)
  have "set out \<subseteq> set (concat (ls ! L @ lower))"
    using set_drop_superseded [of "merge_tables (user_comparator db) (ls ! L @ lower)"]
    by (auto simp: out_def set_merge_tables)
  then have out: "\<forall>e \<in> set out. sequence e \<le> last_sequence db"
    using tabs upper_in lower_in by fastforce
  have new_tabs: "set (tables ?db') \<subseteq> insert out (set (tables db))"
  proof
    fix t assume "t \<in> set (tables ?db')"
    then have "t = out \<or> t \<in> set (concat (take L ls)) \<or> t \<in> set (concat (drop (Suc (Suc L)) ls))"
      by (auto simp: tables_def)
    moreover have "set (concat (take L ls)) \<subseteq> set (concat ls)"
      by (auto dest: in_set_takeD)
    moreover have "set (concat (drop (Suc (Suc L)) ls)) \<subseteq> set (concat ls)"
      by (auto dest: in_set_dropD)
    ultimately show "t \<in> insert out (set (tables db))"
      by (auto simp: tables_def ls_def)
  qed
  have 3: "\<forall>t \<in> set (tables ?db'). \<forall>e \<in> set t. sequence e \<le> manifest_sequence ?db'"
    using new_tabs tabs out by auto
  have "set (sources ?db') \<subseteq> insert (mem db) (set_option (imm db) \<union> set (tables ?db'))"
    by (simp add: set_sources)
  then have 1: "\<forall>src \<in> set (sources ?db'). \<forall>e \<in> set src. sequence e \<le> last_sequence ?db'"
    using old 3 by (auto simp: set_sources)
  have 2: "\<forall>r \<in> set (wal_old ?db' @ wal ?db').
              intact r \<and> rec_sequence r + length (rec_ops r) \<le> Suc (last_sequence ?db')"
    using w by simp
  have 4: "manifest_sequence ?db' \<le> last_sequence ?db'" by simp
  have "consistent ?db'"
    unfolding consistent_def using 1 2 3 4 by (intro conjI)
  then show ?thesis by (simp add: eq)
qed

lemma consistent_crash:
  assumes "consistent db"
  shows "consistent (crash extra db)"
proof -
  let ?db' = "crash extra db"
  have sub: "set (wal_old ?db' @ wal ?db') \<subseteq> set (wal_old db @ wal db)"
    by (auto simp: crash_def Let_def dest: in_set_takeD)
  have f: "sources ?db' = sources db" "tables ?db' = tables db"
    "last_sequence ?db' = last_sequence db" "manifest_sequence ?db' = manifest_sequence db"
    by (simp_all add: crash_def Let_def sources_def tables_def)
  have old: "\<forall>src \<in> set (sources db). \<forall>e \<in> set src. sequence e \<le> last_sequence db"
    and w: "\<forall>r \<in> set (wal_old db @ wal db).
              intact r \<and> rec_sequence r + length (rec_ops r) \<le> Suc (last_sequence db)"
    and t: "\<forall>t \<in> set (tables db). \<forall>e \<in> set t. sequence e \<le> manifest_sequence db"
    and ms: "manifest_sequence db \<le> last_sequence db"
    using assms by (simp_all add: consistent_def)
  have 2: "\<forall>r \<in> set (wal_old ?db' @ wal ?db').
              intact r \<and> rec_sequence r + length (rec_ops r) \<le> Suc (last_sequence ?db')"
    unfolding f using w sub by blast
  show ?thesis
    unfolding consistent_def f using old 2 [unfolded f] t ms by (intro conjI)
qed

lemma consistent_example_store: "consistent example_store"
  unfolding example_store_def
  by (intro consistent_compact consistent_flush_imm consistent_Store_Write [where batch = "Some [BatchPut [1] [7]]", unfolded Store_Put_def [symmetric]] consistent_new_store)

lemma example_store_value:
  "example_store =
     \<lparr>user_comparator = None, wal_old = [], wal = [], wal_synced = 0, mem = [], imm = None,
      levels = [[], [[\<lparr>userKey = [1], sequence = 1, tagged = PUT [7]\<rparr>]]],
      last_sequence = 1, manifest_sequence = 1, buffer_budget = 0, io_fault = False\<rparr>"
  by (simp add: example_store_def compact_def flush_imm_def Store_Put_def Store_Write_def
      append_and_apply_def make_room_def new_store_def batch_record_def memtable_size_def
      merge_tables_def Store_WriteOptions_def Let_def)

section \<open>Facts about the examples and the engine's interface\<close>

lemma example_cursor_facts:
  "live_keys example_cursor = [[3], [1], [3]]"
  "visible example_cursor [1] = Some [10]"
  "visible example_cursor [3] = Some [30]"
  "visible example_cursor [2] = None"
  "visible example_cursor [1, 0] = None"
  "it_current example_cursor = Some [1]"
  "it_nativeHandle example_iterator = Some example_cursor"
  by (simp_all add: live_keys_def example_cursor_def visible_def example_iterator_def)

lemma example_cursor_order: "it_less example_cursor a b = (a < b)"
  by (simp add: it_less_def key_less_def example_cursor_def)

lemma Store_Open_outcomes:
  "(\<exists>db. Store_Open options path storage = (Status kOk [], Some db))
   \<or> (\<exists>m. Store_Open options path storage = (Status kInvalidArgument m, None))
   \<or> (\<exists>m. Store_Open options path storage = (Status kIOError m, None))
   \<or> (\<exists>m. Store_Open options path storage = (Status kCorruption m, None))"
  by (simp add: Store_Open_def split: option.splits)

lemma example_paths:
  "example_storage ''/db/missing'' = None"
  "example_storage ''/db/good''
     = Some \<lparr>dir_store = example_store, dir_comparator = ''leveldb.BytewiseComparator'',
             dir_manifest_ok = True, dir_readable = True\<rparr>"
  "example_storage ''/db/unreadable''
     = Some \<lparr>dir_store = example_store, dir_comparator = ''leveldb.BytewiseComparator'',
             dir_manifest_ok = True, dir_readable = False\<rparr>"
  "example_storage ''/db/damaged''
     = Some \<lparr>dir_store = example_store, dir_comparator = ''leveldb.BytewiseComparator'',
             dir_manifest_ok = False, dir_readable = True\<rparr>"
  by (simp_all add: example_storage_def)

lemma example_init_options:
  "create_if_missing (init_options leveldb example_options) = False"
  "error_if_exists (init_options leveldb example_options) = False"
  "comparator (init_options leveldb example_options) = None"
  by (simp_all add: init_options_def example_options_def leveldb_def Store_Options_def)

lemma example_opens:
  "fst (DB_Open leveldb (init_options leveldb example_options) ''/db/missing'' example_storage)
     = Status kInvalidArgument ''does not exist (create_if_missing is false)''"
  "fst (DB_Open leveldb (init_options leveldb example_options) ''/db/unreadable'' example_storage)
     = Status kIOError ''cannot read the store''"
  "fst (DB_Open leveldb (init_options leveldb example_options) ''/db/damaged'' example_storage)
     = Status kCorruption ''manifest cannot be replayed''"
  "fst (DB_Open leveldb (init_options leveldb example_options) ''/db/good'' example_storage)
     = Status kOk []"
  by (simp_all add: leveldb_fields Store_Open_def example_paths example_init_options
      comparator_name_def)

lemma sync_passed_to_engine:
  assumes "nativeDb jdb = Some db"
  shows "snd (Java_org_tron_leveldb_DB_put___3B_3BZ eng jdb k v s)
           = jdb\<lparr>nativeDb :=
               Some (snd (DB_Put eng ((default_WriteOptions eng)\<lparr>sync := s\<rparr>) k v db))\<rparr>"
    and "snd (Java_org_tron_leveldb_DB_delete eng jdb k s)
           = jdb\<lparr>nativeDb :=
               Some (snd (DB_Delete eng ((default_WriteOptions eng)\<lparr>sync := s\<rparr>) k db))\<rparr>"
    and "snd (Java_org_tron_leveldb_DB_write eng jdb jbatch s)
           = jdb\<lparr>nativeDb :=
               Some (snd (DB_Write eng ((default_WriteOptions eng)\<lparr>sync := s\<rparr>)
                            (wb_nativeHandle jbatch) db))\<rparr>"
  using assms
  by (simp_all add: Java_org_tron_leveldb_DB_put___3B_3BZ_def
      Java_org_tron_leveldb_DB_delete_def Java_org_tron_leveldb_DB_write_def
      Let_def split: prod.splits outcome.splits)

lemma example_synced:
  "wal_synced (snd (Store_Write \<lparr>sync = True\<rparr> (Some [op1]) example_store)) = 1"
  "wal_synced (snd (Store_Write \<lparr>sync = False\<rparr> (Some [op1]) example_store)) = 0"
  "length (wal_old (snd (Store_Write \<lparr>sync = s\<rparr> (Some [op1]) example_store))
         @ wal (snd (Store_Write \<lparr>sync = s\<rparr> (Some [op1]) example_store))) = 1"
  by (cases op1;
      simp add: Store_Write_def append_and_apply_def make_room_def flush_imm_def
        memtable_size_def example_store_value Let_def)+

lemma reverse_less: "key_less (Some (JavaComparator reverse_comparator)) a b = (b < a)"
  by (auto simp: key_less_def reverse_comparator_def)

lemma total_order_reverse: "total_order (key_less (Some (JavaComparator reverse_comparator)))"
  unfolding total_order_def reverse_less by auto

lemma reverse_opened:
  "Java_org_tron_leveldb_DB_init leveldb example_storage unopened_db ''/db/new'' reverse_options
     = (Returned (),
        \<lparr>nativeDb = Some (new_store (Some (JavaComparator reverse_comparator)) 4194304),
         nativeComparator = Some (JavaComparator reverse_comparator), nativeLogger = None,
         verifyChecksumsSet = False\<rparr>)"
  by (simp add: Java_org_tron_leveldb_DB_init_def init_options_def reverse_options_def
      example_options_def leveldb_def Store_Options_def Store_Open_def example_storage_def
      unopened_db_def check_def ok_def IsInvalidArgument_def Let_def)

lemma reverse_iterator_value: "reverse_iterator = \<lparr>it_nativeHandle = Some reverse_cursor\<rparr>"
  by (simp add: reverse_iterator_def reverse_db_def reverse_opened reverse_cursor_def
      Java_org_tron_leveldb_DB_put___3B_3B_def Java_org_tron_leveldb_DB_iterator_def
      leveldb_fields Store_Put_def Store_Write_def append_and_apply_def make_room_def
      new_store_def Store_WriteOptions_def Store_NewIterator_def sources_def tables_def
      memtable_size_def batch_record_def internal_less_def reverse_less getReadOptions_def
      Let_def)

lemma reverse_cursor_facts:
  "live_keys reverse_cursor = [[2], [1]]"
  "visible reverse_cursor [1] = Some [10]"
  "visible reverse_cursor [2] = Some [20]"
  "it_less reverse_cursor a b = (b < a)"
  by (simp_all add: live_keys_def reverse_cursor_def visible_def it_less_def reverse_less)

lemma unsynced_db_value:
  "nativeDb unsynced_db =
     Some \<lparr>user_comparator = None,
            wal_old = [\<lparr>rec_length = 1, rec_checksum_ok = True, rec_sequence = 2,
                         rec_ops = [BatchPut [5] [6]]\<rparr>],
            wal = [], wal_synced = 0, mem = [],
            imm = Some [\<lparr>userKey = [5], sequence = 2, tagged = PUT [6]\<rparr>],
            levels = [[], [[\<lparr>userKey = [1], sequence = 1, tagged = PUT [7]\<rparr>]]],
            last_sequence = 2, manifest_sequence = 1, buffer_budget = 0, io_fault = True\<rparr>"
  by (simp add: unsynced_db_def example_db_def Store_Put_def Store_Write_def
      append_and_apply_def make_room_def flush_imm_def memtable_size_def batch_record_def
      example_store_value Let_def)

lemma put_refused_leveldb:
  assumes "nativeDb jdb = Some db" and "io_fault db"
  shows "Java_org_tron_leveldb_DB_put___3B_3B leveldb jdb k v = (Returned (), jdb)"
    and "Java_org_tron_leveldb_DB_put___3B_3BZ leveldb jdb k v s = (Returned (), jdb)"
    and "Java_org_tron_leveldb_DB_delete leveldb jdb k s = (Returned (), jdb)"
proof -
  have same: "jdb\<lparr>nativeDb := Some db\<rparr> = jdb" using assms(1) by simp
  show "Java_org_tron_leveldb_DB_put___3B_3B leveldb jdb k v = (Returned (), jdb)"
    and "Java_org_tron_leveldb_DB_put___3B_3BZ leveldb jdb k v s = (Returned (), jdb)"
    and "Java_org_tron_leveldb_DB_delete leveldb jdb k s = (Returned (), jdb)"
    using assms
    by (simp_all add: Java_org_tron_leveldb_DB_put___3B_3B_def
        Java_org_tron_leveldb_DB_put___3B_3BZ_def Java_org_tron_leveldb_DB_delete_def
        leveldb_fields Store_Put_def Store_Delete_def Store_Write_def same)
qed

lemma put_then_get_accepted:
  assumes "nativeDb jdb = Some db" and "consistent db" and "\<not> io_fault db"
  shows "fst (Java_org_tron_leveldb_DB_get leveldb
               (snd (Java_org_tron_leveldb_DB_put___3B_3B leveldb jdb k v)) k)
           = Returned (Some v)
       \<and> fst (Java_org_tron_leveldb_DB_get leveldb
               (snd (Java_org_tron_leveldb_DB_put___3B_3BZ leveldb jdb k v s)) k)
           = Returned (Some v)
       \<and> fst (Java_org_tron_leveldb_DB_get leveldb
               (snd (Java_org_tron_leveldb_DB_delete leveldb jdb k s)) k)
           = Returned None"
  using assms
  by (simp add: put_leveldb get_leveldb contents_after_write)

lemma put_then_get_accepted_example:
  "nativeDb example_db = Some example_store
   \<and> consistent example_store
   \<and> \<not> io_fault example_store
   \<and> mem example_store = []
   \<and> tables example_store = [[\<lparr>userKey = [1], sequence = 1, tagged = PUT [7]\<rparr>]]
   \<and> fst (Java_org_tron_leveldb_DB_get leveldb example_db [1]) = Returned (Some [7])
   \<and> fst (Java_org_tron_leveldb_DB_get leveldb
           (snd (Java_org_tron_leveldb_DB_put___3B_3B leveldb example_db [1] [9])) [1])
        = Returned (Some [9])
   \<and> fst (Java_org_tron_leveldb_DB_get leveldb
           (snd (Java_org_tron_leveldb_DB_put___3B_3BZ leveldb example_db [1] [9] True)) [1])
        = Returned (Some [9])
   \<and> fst (Java_org_tron_leveldb_DB_get leveldb
           (snd (Java_org_tron_leveldb_DB_delete leveldb example_db [1] False)) [1])
        = Returned None"
proof -
  have h1: "nativeDb example_db = Some example_store" by (simp add: example_db_def)
  have h2: "consistent example_store" by (rule consistent_example_store)
  have h3: "\<not> io_fault example_store" by (simp add: example_store_value)
  have e: "mem example_store = []"
    "tables example_store = [[\<lparr>userKey = [1], sequence = 1, tagged = PUT [7]\<rparr>]]"
    by (simp_all add: example_store_value tables_def)
  have g: "fst (Java_org_tron_leveldb_DB_get leveldb example_db [1]) = Returned (Some [7])"
    by (simp add: get_leveldb [OF h1] contents_def sources_def tables_def example_store_value
        Memtable_Get_def)
  show ?thesis
    using put_then_get_accepted [OF h1 h2 h3, of "[1]" "[9]" True]
      put_then_get_accepted [OF h1 h2 h3, of "[1]" "[9]" False] h1 h2 h3 e g
    by simp
qed

lemma sync_covers_log_accepted:
  assumes "nativeDb jdb = Some db" and "wb_nativeHandle jbatch = Some ops"
    and "\<not> io_fault db"
  shows "(\<exists>db'. Java_org_tron_leveldb_DB_put___3B_3BZ leveldb jdb k v True
                  = (Returned (), jdb\<lparr>nativeDb := Some db'\<rparr>)
            \<and> db' = snd (Store_Put \<lparr>sync = True\<rparr> k v db)
            \<and> last (wal_old db' @ wal db') = batch_record (Suc (last_sequence db)) [BatchPut k v]
            \<and> length (wal_old db' @ wal db') \<le> wal_synced db')
       \<and> (\<exists>db'. Java_org_tron_leveldb_DB_delete leveldb jdb k True
                  = (Returned (), jdb\<lparr>nativeDb := Some db'\<rparr>)
            \<and> db' = snd (Store_Delete \<lparr>sync = True\<rparr> k db)
            \<and> last (wal_old db' @ wal db') = batch_record (Suc (last_sequence db)) [BatchDelete k]
            \<and> length (wal_old db' @ wal db') \<le> wal_synced db')
       \<and> (\<exists>db'. Java_org_tron_leveldb_DB_write leveldb jdb jbatch True
                  = (Returned (), jdb\<lparr>nativeDb := Some db'\<rparr>)
            \<and> db' = snd (Store_Write \<lparr>sync = True\<rparr> (Some ops) db)
            \<and> last (wal_old db' @ wal db') = batch_record (Suc (last_sequence db)) ops
            \<and> length (wal_old db' @ wal db') \<le> wal_synced db')"
  using assms synced_after_write [of "[BatchPut k v]" db]
    synced_after_write [of "[BatchDelete k]" db] synced_after_write [of ops db]
  by (simp add: put_leveldb write_leveldb Store_Put_def Store_Delete_def Store_Write_def
      last_record_after_write)

lemma sync_covers_log_accepted_example:
  "nativeDb example_db = Some example_store
   \<and> wb_nativeHandle \<lparr>wb_nativeHandle = Some [BatchDelete [1]]\<rparr> = Some [BatchDelete [1]]
   \<and> \<not> io_fault example_store
   \<and> map_option (\<lambda>db'. (length (wal_old db' @ wal db'), wal_synced db'))
         (nativeDb (snd (Java_org_tron_leveldb_DB_put___3B_3BZ leveldb example_db [5] [6] True)))
        = Some (1, 1)
   \<and> map_option (\<lambda>db'. (length (wal_old db' @ wal db'), wal_synced db'))
         (nativeDb (snd (Java_org_tron_leveldb_DB_delete leveldb example_db [5] True)))
        = Some (1, 1)
   \<and> map_option (\<lambda>db'. (length (wal_old db' @ wal db'), wal_synced db'))
         (nativeDb (snd (Java_org_tron_leveldb_DB_write leveldb example_db
            \<lparr>wb_nativeHandle = Some [BatchDelete [1]]\<rparr> True)))
        = Some (1, 1)
   \<and> map_option (\<lambda>db'. (length (wal_old db' @ wal db'), wal_synced db'))
         (nativeDb (snd (Java_org_tron_leveldb_DB_put___3B_3BZ leveldb example_db [5] [6] False)))
        = Some (1, 0)"
proof -
  let ?b = "\<lparr>wb_nativeHandle = Some [BatchDelete [1]]\<rparr> :: write_batch jWriteBatch"
  have h1: "nativeDb example_db = Some example_store" by (simp add: example_db_def)
  have h2: "wb_nativeHandle ?b = Some [BatchDelete [1]]" by simp
  have h3: "\<not> io_fault example_store" by (simp add: example_store_value)
  note t = sync_covers_log_accepted [OF h1 h2 h3, of "[5]" "[6]"]
  have unsynced: "snd (Java_org_tron_leveldb_DB_put___3B_3BZ leveldb example_db [5] [6] False)
      = example_db\<lparr>nativeDb :=
          Some (snd (Store_Write \<lparr>sync = False\<rparr> (Some [BatchPut [5] [6]]) example_store))\<rparr>"
    using sync_passed_to_engine(1) [OF h1, of leveldb "[5]" "[6]" False]
    by (simp add: leveldb_fields Store_WriteOptions_def Store_Put_def)
  show ?thesis
    using t h1 h3 example_synced [where ?op1.0 = "BatchPut [5] [6]"]
      example_synced(1,3) [where ?op1.0 = "BatchDelete [1]"]
      example_synced(1,3) [where ?op1.0 = "BatchDelete [5]"]
    by (auto simp: unsynced Store_Put_def Store_Delete_def)
qed

section \<open>The claims\<close>

text \<open>
  C1. The claim is that on every open store \<open>put(k, v)\<close> followed by \<open>get(k)\<close> returns \<open>v\<close>
  and \<open>delete(k)\<close> followed by \<open>get(k)\<close> returns the absent indicator. On an open store
  whose storage refuses the write, the two \<open>put\<close> methods and \<open>delete\<close> return normally and
  leave the store as it was, since they do not look at the status of the engine, and the
  \<open>get\<close> that follows answers what the store held before: not \<open>v\<close> after a \<open>put\<close>, and
  a value after a \<open>delete\<close>. Where the storage accepts the write the claim holds, in any
  consistent store (\<open>put_then_get_accepted\<close>).
\<close>

theorem put_then_get_after_refused_write:
  assumes "nativeDb jdb = Some db" and "io_fault db"
  shows "Java_org_tron_leveldb_DB_put___3B_3B leveldb jdb k v = (Returned (), jdb)
       \<and> fst (Java_org_tron_leveldb_DB_get leveldb
               (snd (Java_org_tron_leveldb_DB_put___3B_3B leveldb jdb k v)) k)
           = Returned (contents db k)
       \<and> Java_org_tron_leveldb_DB_put___3B_3BZ leveldb jdb k v s = (Returned (), jdb)
       \<and> fst (Java_org_tron_leveldb_DB_get leveldb
               (snd (Java_org_tron_leveldb_DB_put___3B_3BZ leveldb jdb k v s)) k)
           = Returned (contents db k)
       \<and> Java_org_tron_leveldb_DB_delete leveldb jdb k s = (Returned (), jdb)
       \<and> fst (Java_org_tron_leveldb_DB_get leveldb
               (snd (Java_org_tron_leveldb_DB_delete leveldb jdb k s)) k)
           = Returned (contents db k)"
  using assms by (simp add: put_refused_leveldb get_leveldb)

theorem put_then_get_after_refused_write_witness:
  "nativeDb faulty_db = Some (example_store\<lparr>io_fault := True\<rparr>)
   \<and> io_fault (example_store\<lparr>io_fault := True\<rparr>)
   \<and> Java_org_tron_leveldb_DB_put___3B_3B leveldb faulty_db [1] [9] = (Returned (), faulty_db)
   \<and> fst (Java_org_tron_leveldb_DB_get leveldb
           (snd (Java_org_tron_leveldb_DB_put___3B_3B leveldb faulty_db [1] [9])) [1])
        = Returned (Some [7])
   \<and> fst (Java_org_tron_leveldb_DB_get leveldb
           (snd (Java_org_tron_leveldb_DB_put___3B_3BZ leveldb faulty_db [1] [9] True)) [1])
        = Returned (Some [7])
   \<and> Java_org_tron_leveldb_DB_delete leveldb faulty_db [1] True = (Returned (), faulty_db)
   \<and> fst (Java_org_tron_leveldb_DB_get leveldb
           (snd (Java_org_tron_leveldb_DB_delete leveldb faulty_db [1] True)) [1])
        = Returned (Some [7])"
proof -
  let ?db = "example_store\<lparr>io_fault := True\<rparr>"
  have h: "nativeDb faulty_db = Some ?db" by (simp add: faulty_db_def)
  have f: "io_fault ?db" by simp
  have c: "contents ?db [1] = Some [7]"
    by (simp add: contents_def sources_def tables_def example_store_value Memtable_Get_def)
  show ?thesis
    using put_then_get_after_refused_write [OF h f, of "[1]" "[9]" True] h
    by (simp add: c get_leveldb [OF h])
qed

text \<open>
  C2. For every write batch, \<open>write\<close> on an open, consistent store is all or nothing. If the
  storage refuses the append to the log, the call raises and the store is unchanged: none
  of the operations is visible. Otherwise the call returns, what the store answers for
  every key is what the ordered operations of the batch make of the previous answers, the
  batch is the last record of the log, and after any crash that this one record survives
  (in particular once an fsync has covered it) a restart shows every operation of the
  batch. A crash in the middle of the write, which leaves a truncated record at the tail of
  the log, restarts into exactly the store that a restart without the batch gives.
\<close>

theorem write_all_or_nothing:
  assumes "nativeDb jdb = Some db" and "wb_nativeHandle jbatch = Some ops"
    and "consistent db"
  shows "(if io_fault db
          then Java_org_tron_leveldb_DB_write leveldb jdb jbatch s
                 = (Thrown (Exception RuntimeException ''IOError: log append failed''), jdb)
          else (\<exists>db'. Java_org_tron_leveldb_DB_write leveldb jdb jbatch s
                        = (Returned (), jdb\<lparr>nativeDb := Some db'\<rparr>)
                  \<and> contents db' = apply_batch ops (contents db)
                  \<and> last (wal_old db' @ wal db') = batch_record (Suc (last_sequence db)) ops
                  \<and> (\<forall>extra k. length (wal_old db' @ wal db') \<le> wal_synced db' + extra
                         \<longrightarrow> k \<in> op_key ` set ops
                         \<longrightarrow> contents (restart (crash extra db')) k
                               = apply_batch ops (contents db) k)))
       \<and> (\<forall>n < length ops. restart (torn_Write ops n db) = restart db)"
proof (intro conjI)
  show "\<forall>n < length ops. restart (torn_Write ops n db) = restart db"
    by (simp add: restart_torn_Write)
  show "if io_fault db
        then Java_org_tron_leveldb_DB_write leveldb jdb jbatch s
               = (Thrown (Exception RuntimeException ''IOError: log append failed''), jdb)
        else (\<exists>db'. Java_org_tron_leveldb_DB_write leveldb jdb jbatch s
                      = (Returned (), jdb\<lparr>nativeDb := Some db'\<rparr>)
                \<and> contents db' = apply_batch ops (contents db)
                \<and> last (wal_old db' @ wal db') = batch_record (Suc (last_sequence db)) ops
                \<and> (\<forall>extra k. length (wal_old db' @ wal db') \<le> wal_synced db' + extra
                       \<longrightarrow> k \<in> op_key ` set ops
                       \<longrightarrow> contents (restart (crash extra db')) k
                             = apply_batch ops (contents db) k))"
  proof (cases "io_fault db")
    case True
    then show ?thesis using assms(1,2) by (simp add: write_leveldb_fault)
  next
    case False
    let ?db' = "make_room (append_and_apply \<lparr>sync = s\<rparr> ops db)"
    have 1: "Java_org_tron_leveldb_DB_write leveldb jdb jbatch s
               = (Returned (), jdb\<lparr>nativeDb := Some ?db'\<rparr>)"
      using assms(1,2) False by (rule write_leveldb)
    have 2: "contents ?db' = apply_batch ops (contents db)"
      using assms(3) by (rule contents_after_write)
    have 3: "last (wal_old ?db' @ wal ?db') = batch_record (Suc (last_sequence db)) ops"
      by (rule last_record_after_write)
    have 4: "contents (restart (crash extra ?db')) k = apply_batch ops (contents db) k"
      if "length (wal_old ?db' @ wal ?db') \<le> wal_synced ?db' + extra"
        and "k \<in> op_key ` set ops" for extra k
    proof -
      have "crash extra ?db' = ?db'" using that(1) by (rule crash_all)
      moreover have "batch_effect k ops \<noteq> NotFound"
        using that(2) by (simp add: batch_effect_touched)
      ultimately show ?thesis
        using contents_restart_after_write [OF assms(3) refl, of k ops "\<lparr>sync = s\<rparr>"] by simp
    qed
    show ?thesis using False 1 2 3 4 by auto
  qed
qed

theorem write_all_or_nothing_witness:
  "nativeDb example_db = Some example_store
   \<and> wb_nativeHandle example_batch = Some [BatchPut [120] [1], BatchPut [121] [2]]
   \<and> consistent example_store
   \<and> fst (Java_org_tron_leveldb_DB_write leveldb example_db example_batch True) = Returned ()
   \<and> fst (Java_org_tron_leveldb_DB_get leveldb
           (snd (Java_org_tron_leveldb_DB_write leveldb example_db example_batch True)) [120])
        = Returned (Some [1])
   \<and> fst (Java_org_tron_leveldb_DB_get leveldb
           (snd (Java_org_tron_leveldb_DB_write leveldb example_db example_batch True)) [121])
        = Returned (Some [2])
   \<and> map_option (\<lambda>db'. contents (restart (crash 0 db')) [121])
         (nativeDb (snd (Java_org_tron_leveldb_DB_write leveldb example_db example_batch True)))
        = Some (Some [2])
   \<and> restart (torn_Write [BatchPut [120] [1], BatchPut [121] [2]] 1 example_store)
        = restart example_store
   \<and> contents (restart example_store) [120] = None
   \<and> contents (restart example_store) [121] = None"
proof -
  let ?ops = "[BatchPut [120] [1], BatchPut [121] [2]]"
  have h1: "nativeDb example_db = Some example_store" by (simp add: example_db_def)
  have h2: "wb_nativeHandle example_batch = Some ?ops" by (simp add: example_batch_def)
  have h3: "consistent example_store" by (rule consistent_example_store)
  have nf: "\<not> io_fault example_store" by (simp add: example_store_value)
  note t = write_all_or_nothing [OF h1 h2 h3, of True]
  from t [THEN conjunct1]
  have "\<exists>db'. Java_org_tron_leveldb_DB_write leveldb example_db example_batch True
                = (Returned (), example_db\<lparr>nativeDb := Some db'\<rparr>)
          \<and> contents db' = apply_batch ?ops (contents example_store)
          \<and> last (wal_old db' @ wal db')
                = batch_record (Suc (last_sequence example_store)) ?ops
          \<and> (\<forall>extra k. length (wal_old db' @ wal db') \<le> wal_synced db' + extra
                 \<longrightarrow> k \<in> op_key ` set ?ops
                 \<longrightarrow> contents (restart (crash extra db')) k
                       = apply_batch ?ops (contents example_store) k)"
    unfolding if_not_P [OF nf] .
  then obtain db' where
    w: "Java_org_tron_leveldb_DB_write leveldb example_db example_batch True
          = (Returned (), example_db\<lparr>nativeDb := Some db'\<rparr>)"
    and c: "contents db' = apply_batch ?ops (contents example_store)"
    and d: "\<forall>extra k. length (wal_old db' @ wal db') \<le> wal_synced db' + extra
              \<longrightarrow> k \<in> op_key ` set ?ops
              \<longrightarrow> contents (restart (crash extra db')) k
                    = apply_batch ?ops (contents example_store) k"
    by blast
  have "example_db\<lparr>nativeDb := Some db'\<rparr> = example_db\<lparr>nativeDb :=
          Some (make_room (append_and_apply \<lparr>sync = True\<rparr> ?ops example_store))\<rparr>"
    using w write_leveldb [OF h1 h2 nf, of True] by simp
  then have "nativeDb (example_db\<lparr>nativeDb := Some db'\<rparr>) = nativeDb (example_db\<lparr>nativeDb :=
          Some (make_room (append_and_apply \<lparr>sync = True\<rparr> ?ops example_store))\<rparr>)"
    by (rule arg_cong)
  then have "db' = make_room (append_and_apply \<lparr>sync = True\<rparr> ?ops example_store)"
    by simp
  then have "length (wal_old db' @ wal db') \<le> wal_synced db' + 0"
    using synced_after_write [of ?ops example_store] by simp
  moreover have "[121] \<in> op_key ` set ?ops" by simp
  ultimately have "contents (restart (crash 0 db')) [121]
                     = apply_batch ?ops (contents example_store) [121]"
    using d by blast
  then have dur: "contents (restart (crash 0 db')) [121] = Some [2]"
    by simp
  have torn: "restart (torn_Write ?ops 1 example_store) = restart example_store"
    using t by simp
  have g: "fst (Java_org_tron_leveldb_DB_get leveldb (example_db\<lparr>nativeDb := Some db'\<rparr>) k)
             = Returned (apply_batch ?ops (contents example_store) k)" for k
    by (simp add: get_leveldb c)
  have r: "contents (restart example_store) [120] = None"
    "contents (restart example_store) [121] = None"
    by (simp_all add: contents_def sources_restart restart_fields example_store_value
        tables_def replay_def recovered_sequence_def Memtable_Get_def)
  show ?thesis
    using h1 h2 h3 torn r dur by (simp add: w g)
qed

text \<open>
  C3. After \<open>close\<close>, every operation on the store (both \<open>put\<close> methods, \<open>get\<close>, \<open>delete\<close>,
  \<open>write\<close>, \<open>iterator\<close>, \<open>createWriteBatch\<close> and \<open>getProperty\<close>) fails with an
  \<open>IllegalStateException\<close> and leaves the Java object as \<open>close\<close> left it, whatever the engine
  and the arguments are.
\<close>

theorem closed_store_rejects_operations:
  "nativeDb (snd (Java_org_tron_leveldb_DB_close eng jdb)) = None
   \<and> (let closed = snd (Java_org_tron_leveldb_DB_close eng jdb) in
     Java_org_tron_leveldb_DB_put___3B_3B eng closed k v
       = (Thrown (Exception IllegalStateException ''DB is not open''), closed)
   \<and> Java_org_tron_leveldb_DB_put___3B_3BZ eng closed k v s
       = (Thrown (Exception IllegalStateException ''DB is not open''), closed)
   \<and> Java_org_tron_leveldb_DB_get eng closed k
       = (Thrown (Exception IllegalStateException ''DB is not open''), closed)
   \<and> Java_org_tron_leveldb_DB_delete eng closed k s
       = (Thrown (Exception IllegalStateException ''DB is not open''), closed)
   \<and> Java_org_tron_leveldb_DB_write eng closed jbatch s
       = (Thrown (Exception IllegalStateException ''DB is not open''), closed)
   \<and> Java_org_tron_leveldb_DB_iterator eng closed jread_options
       = (Thrown (Exception IllegalStateException ''DB is not open''), closed)
   \<and> Java_org_tron_leveldb_DB_createWriteBatch eng closed
       = (Thrown (Exception IllegalStateException ''DB is not open''), closed)
   \<and> Java_org_tron_leveldb_DB_getProperty eng closed name
       = (Thrown (Exception IllegalStateException ''DB is not open''), closed))"
  by (simp add: Java_org_tron_leveldb_DB_close_def Java_org_tron_leveldb_DB_put___3B_3B_def
      Java_org_tron_leveldb_DB_put___3B_3BZ_def Java_org_tron_leveldb_DB_get_def
      Java_org_tron_leveldb_DB_delete_def Java_org_tron_leveldb_DB_write_def
      Java_org_tron_leveldb_DB_iterator_def Java_org_tron_leveldb_DB_createWriteBatch_def
      Java_org_tron_leveldb_DB_getProperty_def throw_not_open_def Let_def)

theorem closed_store_rejects_operations_witness:
  "nativeDb example_db = Some example_store
   \<and> snd (Java_org_tron_leveldb_DB_close leveldb example_db) = unopened_db
   \<and> Java_org_tron_leveldb_DB_put___3B_3B leveldb unopened_db [1] [9]
       = (Thrown (Exception IllegalStateException ''DB is not open''), unopened_db)
   \<and> Java_org_tron_leveldb_DB_put___3B_3BZ leveldb unopened_db [1] [9] True
       = (Thrown (Exception IllegalStateException ''DB is not open''), unopened_db)
   \<and> Java_org_tron_leveldb_DB_get leveldb unopened_db [1]
       = (Thrown (Exception IllegalStateException ''DB is not open''), unopened_db)
   \<and> Java_org_tron_leveldb_DB_delete leveldb unopened_db [1] True
       = (Thrown (Exception IllegalStateException ''DB is not open''), unopened_db)
   \<and> Java_org_tron_leveldb_DB_write leveldb unopened_db example_batch True
       = (Thrown (Exception IllegalStateException ''DB is not open''), unopened_db)
   \<and> Java_org_tron_leveldb_DB_iterator leveldb unopened_db
         \<lparr>verifyChecksums = False, fillCache = True\<rparr>
       = (Thrown (Exception IllegalStateException ''DB is not open''), unopened_db)
   \<and> Java_org_tron_leveldb_DB_createWriteBatch leveldb unopened_db
       = (Thrown (Exception IllegalStateException ''DB is not open''), unopened_db)
   \<and> Java_org_tron_leveldb_DB_getProperty leveldb unopened_db ''leveldb.num-files-at-level0''
       = (Thrown (Exception IllegalStateException ''DB is not open''), unopened_db)"
proof -
  have c: "snd (Java_org_tron_leveldb_DB_close leveldb example_db) = unopened_db"
    by (simp add: Java_org_tron_leveldb_DB_close_def example_db_def unopened_db_def)
  show ?thesis
    using closed_store_rejects_operations [of leveldb example_db "[1]" "[9]" True
        example_batch "\<lparr>verifyChecksums = False, fillCache = True\<rparr>"
        "''leveldb.num-files-at-level0''"]
    unfolding c Let_def by (simp add: example_db_def)
qed

text \<open>
  C4. On an open store, when the engine answers \<open>NotFound\<close> for a key, \<open>get\<close> returns null as
  its result and raises nothing, whatever the engine is; the store is unchanged.
\<close>

theorem get_absent_is_null:
  assumes "nativeDb jdb = Some db"
    and "IsNotFound (fst (DB_Get eng
           (if verifyChecksumsSet jdb
            then (default_ReadOptions eng)\<lparr>verify_checksums := True\<rparr>
            else default_ReadOptions eng) k db))"
  shows "Java_org_tron_leveldb_DB_get eng jdb k = (Returned None, jdb)"
  using assms
  by (cases "verifyChecksumsSet jdb")
     (auto simp: Java_org_tron_leveldb_DB_get_def Let_def split: prod.splits)

theorem get_absent_is_null_witness:
  "nativeDb example_db = Some example_store
   \<and> IsNotFound (fst (DB_Get leveldb
        (if verifyChecksumsSet example_db
         then (default_ReadOptions leveldb)\<lparr>verify_checksums := True\<rparr>
         else default_ReadOptions leveldb) [2] example_store))
   \<and> contents example_store [2] = None
   \<and> Java_org_tron_leveldb_DB_get leveldb example_db [2] = (Returned None, example_db)"
proof -
  have h1: "nativeDb example_db = Some example_store" by (simp add: example_db_def)
  have c: "contents example_store [2] = None"
    by (simp add: contents_def sources_def tables_def example_store_value Memtable_Get_def)
  have h2: "IsNotFound (fst (DB_Get leveldb
        (if verifyChecksumsSet example_db
         then (default_ReadOptions leveldb)\<lparr>verify_checksums := True\<rparr>
         else default_ReadOptions leveldb) [2] example_store))"
    using c
    by (simp add: leveldb_fields Store_Get_def contents_def IsNotFound_def
        split: lookup.splits)
  show ?thesis
    using get_absent_is_null [OF h1 h2] h1 h2 c by simp
qed

text \<open>
  C5. The claim is that every failure of the engine reaches the caller as an error. The two
  \<open>put\<close> methods and \<open>delete\<close> do not look at the status the engine returns: on an open
  store they return normally whatever it is, while \<open>write\<close> hands the status to \<open>check\<close>.
\<close>

theorem put_and_delete_discard_status:
  assumes "nativeDb jdb = Some db"
  shows "Java_org_tron_leveldb_DB_put___3B_3B eng jdb k v
           = (Returned (),
              jdb\<lparr>nativeDb := Some (snd (DB_Put eng (default_WriteOptions eng) k v db))\<rparr>)
       \<and> Java_org_tron_leveldb_DB_put___3B_3BZ eng jdb k v s
           = (Returned (),
              jdb\<lparr>nativeDb :=
                Some (snd (DB_Put eng ((default_WriteOptions eng)\<lparr>sync := s\<rparr>) k v db))\<rparr>)
       \<and> Java_org_tron_leveldb_DB_delete eng jdb k s
           = (Returned (),
              jdb\<lparr>nativeDb :=
                Some (snd (DB_Delete eng ((default_WriteOptions eng)\<lparr>sync := s\<rparr>) k db))\<rparr>)"
  using assms
  by (simp add: Java_org_tron_leveldb_DB_put___3B_3B_def
      Java_org_tron_leveldb_DB_put___3B_3BZ_def Java_org_tron_leveldb_DB_delete_def
      Let_def split: prod.splits)

theorem put_and_delete_discard_status_witness:
  "nativeDb faulty_db = Some (example_store\<lparr>io_fault := True\<rparr>)
   \<and> DB_Put leveldb (default_WriteOptions leveldb) [1] [9] (example_store\<lparr>io_fault := True\<rparr>)
        = (Status kIOError ''log append failed'', example_store\<lparr>io_fault := True\<rparr>)
   \<and> Java_org_tron_leveldb_DB_put___3B_3B leveldb faulty_db [1] [9] = (Returned (), faulty_db)
   \<and> Java_org_tron_leveldb_DB_put___3B_3BZ leveldb faulty_db [1] [9] True
        = (Returned (), faulty_db)
   \<and> Java_org_tron_leveldb_DB_delete leveldb faulty_db [1] True = (Returned (), faulty_db)
   \<and> fst (Java_org_tron_leveldb_DB_get leveldb faulty_db [1]) = Returned (Some [7])
   \<and> Java_org_tron_leveldb_DB_write leveldb faulty_db \<lparr>wb_nativeHandle = Some [BatchPut [1] [9]]\<rparr>
         True
        = (Thrown (Exception RuntimeException ''IOError: log append failed''), faulty_db)"
proof -
  let ?db = "example_store\<lparr>io_fault := True\<rparr>"
  have h: "nativeDb faulty_db = Some ?db" by (simp add: faulty_db_def)
  have f: "io_fault ?db" by simp
  have p: "DB_Put leveldb o1 [1] [9] ?db = (Status kIOError ''log append failed'', ?db)"
      "DB_Delete leveldb o1 [1] ?db = (Status kIOError ''log append failed'', ?db)" for o1
    by (simp_all add: leveldb_fields Store_Put_def Store_Delete_def Store_Write_def)
  have same: "faulty_db\<lparr>nativeDb := Some ?db\<rparr> = faulty_db" by (simp add: faulty_db_def)
  have g: "fst (Java_org_tron_leveldb_DB_get leveldb faulty_db [1]) = Returned (Some [7])"
    by (simp add: get_leveldb [OF h] contents_def sources_def tables_def example_store_value
        Memtable_Get_def)
  have w: "Java_org_tron_leveldb_DB_write leveldb faulty_db
             \<lparr>wb_nativeHandle = Some [BatchPut [1] [9]]\<rparr> True
           = (Thrown (Exception RuntimeException ''IOError: log append failed''), faulty_db)"
    by (rule write_leveldb_fault [OF h _ f]) simp
  show ?thesis
    using put_and_delete_discard_status [OF h, of leveldb "[1]" "[9]" True] h g w
    by (simp add: p same)
qed

text \<open>
  C6. The claim is that a call of \<open>put(key, value, sync)\<close>, \<open>delete(key, sync)\<close> or
  \<open>write(batch, sync)\<close> with \<open>sync = true\<close> has forced the log to be fsynced when it returns.
  The three methods pass the flag to the engine (\<open>sync_passed_to_engine\<close>), and where the
  storage accepts the write the fsync has covered the whole log at the return
  (\<open>sync_covers_log_accepted\<close>). On an open store whose storage refuses the write,
  \<open>put(key, value, true)\<close> and \<open>delete(key, true)\<close> return normally with the store as it
  was, no record of the write in the log and no fsync made, while \<open>write(batch, true)\<close>
  raises there.
\<close>

theorem sync_write_refused:
  assumes "nativeDb jdb = Some db" and "wb_nativeHandle jbatch = Some ops" and "io_fault db"
  shows "Java_org_tron_leveldb_DB_put___3B_3BZ leveldb jdb k v True = (Returned (), jdb)
       \<and> Java_org_tron_leveldb_DB_delete leveldb jdb k True = (Returned (), jdb)
       \<and> Java_org_tron_leveldb_DB_write leveldb jdb jbatch True
           = (Thrown (Exception RuntimeException ''IOError: log append failed''), jdb)"
  using assms by (simp add: put_refused_leveldb write_leveldb_fault)

theorem sync_write_refused_witness:
  "wb_nativeHandle example_batch = Some [BatchPut [120] [1], BatchPut [121] [2]]
   \<and> map_option io_fault (nativeDb unsynced_db) = Some True
   \<and> map_option (\<lambda>db. (length (wal_old db @ wal db), wal_synced db)) (nativeDb unsynced_db)
        = Some (1, 0)
   \<and> Java_org_tron_leveldb_DB_put___3B_3BZ leveldb unsynced_db [1] [9] True
        = (Returned (), unsynced_db)
   \<and> map_option (\<lambda>db. (length (wal_old db @ wal db), wal_synced db))
         (nativeDb (snd (Java_org_tron_leveldb_DB_put___3B_3BZ leveldb unsynced_db [1] [9] True)))
        = Some (1, 0)
   \<and> Java_org_tron_leveldb_DB_delete leveldb unsynced_db [1] True = (Returned (), unsynced_db)
   \<and> map_option (\<lambda>db. (length (wal_old db @ wal db), wal_synced db))
         (nativeDb (snd (Java_org_tron_leveldb_DB_delete leveldb unsynced_db [1] True)))
        = Some (1, 0)
   \<and> Java_org_tron_leveldb_DB_write leveldb unsynced_db example_batch True
        = (Thrown (Exception RuntimeException ''IOError: log append failed''), unsynced_db)"
proof -
  note v = unsynced_db_value
  have h2: "wb_nativeHandle example_batch = Some [BatchPut [120] [1], BatchPut [121] [2]]"
    by (simp add: example_batch_def)
  show ?thesis
    using sync_write_refused [OF v h2, of "[1]" "[9]"] h2 by (simp add: v)
qed

text \<open>
  C7. For every iterator of the engine, whatever its sources hold and whatever comparator
  its store was opened with, provided the comparator is a total order of the keys as the
  design document asks of it, and for a caller that allows more rounds than the iterator has
  live keys: walking forwards from \<open>seekToFirst\<close> with \<open>hasNext\<close> and \<open>next\<close> ends and yields
  the visible entries with keys strictly increasing in the order of the comparator, none of
  them twice, and walking backwards from \<open>seekToLast\<close> with \<open>hasPrev\<close>, \<open>peekPrev\<close> and
  \<open>prev\<close> ends and yields exactly the reverse sequence.
\<close>

theorem iteration_order:
  assumes "it_nativeHandle jiter = Some it" and "total_order (it_less it)"
    and "length (live_keys it) < n"
  shows "\<exists>kvs. forward_iteration leveldb n jiter = Some (Returned kvs)
           \<and> sorted_wrt (it_less it) (map fst kvs)
           \<and> distinct (map fst kvs)
           \<and> set kvs = {(k, v). visible it k = Some v}
           \<and> backward_iteration leveldb n jiter = Some (Returned (rev kvs))"
proof (intro exI conjI)
  let ?ks = "ascending (it_less it) (live_keys it)"
  let ?kvs = "map (shown it) ?ks"
  have s: "sorted_wrt (it_less it) ?ks" using assms(2) by (rule sorted_ascending)
  show "forward_iteration leveldb n jiter = Some (Returned ?kvs)"
    using assms by (rule forward_iteration_leveldb)
  show "backward_iteration leveldb n jiter = Some (Returned (rev ?kvs))"
    using assms by (rule backward_iteration_leveldb)
  show "sorted_wrt (it_less it) (map fst ?kvs)"
    unfolding fst_shown by (rule s)
  show "distinct (map fst ?kvs)"
    unfolding fst_shown using assms(2) s by (rule distinct_sorted_wrt)
  show "set ?kvs = {(k, v). visible it k = Some v}"
    using assms(2) by (rule set_shown)
qed

theorem iteration_order_witness:
  "it_nativeHandle example_iterator = Some example_cursor
   \<and> total_order (it_less example_cursor)
   \<and> length (live_keys example_cursor) < 4
   \<and> forward_iteration leveldb 4 example_iterator
        = Some (Returned [([1], [10]), ([3], [30])])
   \<and> backward_iteration leveldb 4 example_iterator
        = Some (Returned [([3], [30]), ([1], [10])])
   \<and> reverse_iterator = \<lparr>it_nativeHandle = Some reverse_cursor\<rparr>
   \<and> total_order (it_less reverse_cursor)
   \<and> it_less reverse_cursor [2] [1]
   \<and> forward_iteration leveldb 3 reverse_iterator
        = Some (Returned [([2], [20]), ([1], [10])])
   \<and> backward_iteration leveldb 3 reverse_iterator
        = Some (Returned [([1], [10]), ([2], [20])])"
proof -
  note e = example_cursor_facts and r = reverse_cursor_facts
  have h1: "it_nativeHandle example_iterator = Some example_cursor" by (rule e)
  have o1: "total_order (it_less example_cursor)"
    using total_order_bytewise by (simp add: it_less_def example_cursor_def)
  have n1: "length (live_keys example_cursor) < 4" by (simp add: e)
  have h2: "it_nativeHandle reverse_iterator = Some reverse_cursor"
    by (simp add: reverse_iterator_value)
  have o2: "total_order (it_less reverse_cursor)"
    using total_order_reverse by (simp add: it_less_def reverse_cursor_def)
  have n2: "length (live_keys reverse_cursor) < 3" by (simp add: r)
  from iteration_order [OF h1 o1 n1] obtain kvs where
    f1: "forward_iteration leveldb 4 example_iterator = Some (Returned kvs)"
    and b1: "backward_iteration leveldb 4 example_iterator = Some (Returned (rev kvs))"
    by blast
  from iteration_order [OF h2 o2 n2] obtain kvs' where
    f2: "forward_iteration leveldb 3 reverse_iterator = Some (Returned kvs')"
    and b2: "backward_iteration leveldb 3 reverse_iterator = Some (Returned (rev kvs'))"
    by blast
  have "forward_iteration leveldb 4 example_iterator
          = Some (Returned [([1], [10]), ([3], [30])])"
    using forward_iteration_leveldb [OF h1 o1 n1]
    by (simp add: shown_def e example_cursor_order)
  with f1 have k1: "kvs = [([1], [10]), ([3], [30])]" by simp
  have "forward_iteration leveldb 3 reverse_iterator
          = Some (Returned [([2], [20]), ([1], [10])])"
    using forward_iteration_leveldb [OF h2 o2 n2]
    by (simp add: shown_def r)
  with f2 have k2: "kvs' = [([2], [20]), ([1], [10])]" by simp
  show ?thesis
    using f1 b1 f2 b2 h1 o1 n1 o2 by (simp add: k1 k2 reverse_iterator_value r)
qed

text \<open>
  C8. \<open>init\<close> ends in one of four ways, by the status of the engine's \<open>Open\<close>: it returns and
  stores the handle of the opened store, or it raises \<open>FileNotFoundException\<close> for
  \<open>InvalidArgument\<close>, \<open>RuntimeException\<close> for \<open>IOError\<close> and \<open>IOException\<close> for a corruption,
  three different classes, and leaves the handle as it was. The \<open>Open\<close> of the engine ends
  with one of these four statuses only, and with a store exactly when the status is OK.
\<close>

theorem open_outcomes:
  "(let opened = DB_Open eng (init_options eng joptions) jfile fs;
        st = fst opened;
        result = Java_org_tron_leveldb_DB_init eng fs jdb jfile joptions
    in fst result =
         (case status_code st of
            kOk \<Rightarrow> Returned ()
          | kInvalidArgument \<Rightarrow>
              Thrown (Exception FileNotFoundException (c_str (ToString eng st)))
          | kIOError \<Rightarrow>
              Thrown (Exception RuntimeException (c_str (ToString eng st)))
          | kCorruption \<Rightarrow>
              Thrown (Exception IOException (c_str (ToString eng st)))
          | kNotFound \<Rightarrow>
              Thrown (Exception FileNotFoundException (c_str (ToString eng st))))
       \<and> nativeDb (snd result) = (if ok st then snd opened else nativeDb jdb))
   \<and> status_code (fst (Store_Open options path storage))
        \<in> {kOk, kInvalidArgument, kIOError, kCorruption}
   \<and> ok (fst (Store_Open options path storage))
        = (snd (Store_Open options path storage) \<noteq> None)"
proof (intro conjI)
  obtain st db where o: "DB_Open eng (init_options eng joptions) jfile fs = (st, db)"
    by (cases "DB_Open eng (init_options eng joptions) jfile fs")
  show "let opened = DB_Open eng (init_options eng joptions) jfile fs;
            st = fst opened;
            result = Java_org_tron_leveldb_DB_init eng fs jdb jfile joptions
        in fst result =
             (case status_code st of
                kOk \<Rightarrow> Returned ()
              | kInvalidArgument \<Rightarrow>
              Thrown (Exception FileNotFoundException (c_str (ToString eng st)))
              | kIOError \<Rightarrow>
              Thrown (Exception RuntimeException (c_str (ToString eng st)))
              | kCorruption \<Rightarrow>
              Thrown (Exception IOException (c_str (ToString eng st)))
              | kNotFound \<Rightarrow>
              Thrown (Exception FileNotFoundException (c_str (ToString eng st))))
           \<and> nativeDb (snd result) = (if ok st then snd opened else nativeDb jdb)"
    by (cases "status_code st")
       (simp_all add: o Java_org_tron_leveldb_DB_init_def Let_def check_def ok_def
          IsNotFound_def IsCorruption_def IsInvalidArgument_def split: option.splits)
  show "status_code (fst (Store_Open options path storage))
          \<in> {kOk, kInvalidArgument, kIOError, kCorruption}"
    using Store_Open_outcomes [of options path storage] by auto
  show "ok (fst (Store_Open options path storage))
          = (snd (Store_Open options path storage) \<noteq> None)"
    using Store_Open_outcomes [of options path storage] by (auto simp: ok_def)
qed

theorem open_outcomes_witness:
  "fst (Java_org_tron_leveldb_DB_init leveldb example_storage unopened_db ''/db/good''
          example_options) = Returned ()
   \<and> nativeDb (snd (Java_org_tron_leveldb_DB_init leveldb example_storage unopened_db
          ''/db/good'' example_options)) \<noteq> None
   \<and> fst (Java_org_tron_leveldb_DB_init leveldb example_storage unopened_db ''/db/missing''
          example_options)
       = Thrown (Exception FileNotFoundException
           ''InvalidArgument: does not exist (create_if_missing is false)'')
   \<and> nativeDb (snd (Java_org_tron_leveldb_DB_init leveldb example_storage unopened_db
          ''/db/missing'' example_options)) = None
   \<and> fst (Java_org_tron_leveldb_DB_init leveldb example_storage unopened_db ''/db/unreadable''
          example_options)
       = Thrown (Exception RuntimeException ''IOError: cannot read the store'')
   \<and> fst (Java_org_tron_leveldb_DB_init leveldb example_storage unopened_db ''/db/damaged''
          example_options)
       = Thrown (Exception IOException ''Corruption: manifest cannot be replayed'')"
proof -
  have n: "nativeDb unopened_db = None" by (simp add: unopened_db_def)
  have g: "snd (DB_Open leveldb (init_options leveldb example_options) ''/db/good''
             example_storage) \<noteq> None"
    by (simp add: leveldb_fields Store_Open_def example_paths example_init_options
        comparator_name_def)
  have ts: "ToString leveldb = Store_ToString" by (simp add: leveldb_def)
  note t = open_outcomes [of leveldb example_options _ example_storage unopened_db,
      unfolded Let_def, THEN conjunct1]
  show ?thesis
    using t [of "''/db/good''"] t [of "''/db/missing''"] t [of "''/db/unreadable''"]
      t [of "''/db/damaged''"] g
    by (simp add: example_opens ok_def n ts c_str_def)
qed

text \<open>
  C9. On an open iterator at a valid position, \<open>peekNext\<close> returns the entry at the position
  and leaves the iterator as it is, \<open>next\<close> returns the same entry and moves the iterator by
  one call of the engine's \<open>Next\<close>; so \<open>peekNext\<close> followed by \<open>next\<close> yields the same entry
  twice.
\<close>

theorem peekNext_then_next:
  assumes "it_nativeHandle jiter = Some iter" and "Iterator_Valid eng iter"
  shows "Java_org_tron_leveldb_DBIterator_peekNext eng jiter
           = (Returned (Iterator_key eng iter, Iterator_value eng iter), jiter)
       \<and> Java_org_tron_leveldb_DBIterator_next eng jiter
           = (Returned (Iterator_key eng iter, Iterator_value eng iter),
              jiter\<lparr>it_nativeHandle := Some (Iterator_Next eng iter)\<rparr>)
       \<and> fst (Java_org_tron_leveldb_DBIterator_next eng
                (snd (Java_org_tron_leveldb_DBIterator_peekNext eng jiter)))
           = fst (Java_org_tron_leveldb_DBIterator_peekNext eng jiter)"
  using assms
  by (simp add: Java_org_tron_leveldb_DBIterator_peekNext_def
      Java_org_tron_leveldb_DBIterator_next_def Let_def)

theorem peekNext_then_next_witness:
  "it_nativeHandle example_iterator = Some example_cursor
   \<and> Iterator_Valid leveldb example_cursor
   \<and> Java_org_tron_leveldb_DBIterator_peekNext leveldb example_iterator
        = (Returned ([1], [10]), example_iterator)
   \<and> Java_org_tron_leveldb_DBIterator_next leveldb example_iterator
        = (Returned ([1], [10]),
           \<lparr>it_nativeHandle = Some (example_cursor\<lparr>it_current := Some [3]\<rparr>)\<rparr>)
   \<and> fst (Java_org_tron_leveldb_DBIterator_next leveldb
            (snd (Java_org_tron_leveldb_DBIterator_peekNext leveldb example_iterator)))
        = Returned ([1], [10])"
proof -
  note e = example_cursor_facts
  have h1: "it_nativeHandle example_iterator = Some example_cursor" by (rule e)
  have h2: "Iterator_Valid leveldb example_cursor"
    by (simp add: leveldb_fields Iter_Valid_def e)
  have k: "Iterator_key leveldb example_cursor = [1]"
    "Iterator_value leveldb example_cursor = [10]"
    by (simp_all add: leveldb_fields Iter_key_def Iter_value_def e)
  have n: "Iterator_Next leveldb example_cursor = example_cursor\<lparr>it_current := Some [3]\<rparr>"
    by (simp add: leveldb_fields Iter_Next_def e example_cursor_order)
  have u: "example_iterator\<lparr>it_nativeHandle := Some x\<rparr> = \<lparr>it_nativeHandle = Some x\<rparr>" for x
    by (simp add: example_iterator_def)
  show ?thesis
    using peekNext_then_next [OF h1 h2] h1 h2 by (simp add: k n u)
qed

text \<open>
  C10. On an open iterator, in every state of it, \<open>hasNext\<close> and \<open>hasPrev\<close> return the same
  boolean, the engine's \<open>Valid\<close>, and leave the iterator as it is.
\<close>

theorem hasNext_hasPrev_agree:
  assumes "it_nativeHandle jiter = Some iter"
  shows "Java_org_tron_leveldb_DBIterator_hasNext eng jiter
           = (Returned (Iterator_Valid eng iter), jiter)
       \<and> Java_org_tron_leveldb_DBIterator_hasPrev eng jiter
           = (Returned (Iterator_Valid eng iter), jiter)"
  using assms
  by (simp add: Java_org_tron_leveldb_DBIterator_hasNext_def
      Java_org_tron_leveldb_DBIterator_hasPrev_def)

theorem hasNext_hasPrev_agree_witness:
  "it_nativeHandle example_iterator = Some example_cursor
   \<and> Java_org_tron_leveldb_DBIterator_hasNext leveldb example_iterator
        = (Returned True, example_iterator)
   \<and> Java_org_tron_leveldb_DBIterator_hasPrev leveldb example_iterator
        = (Returned True, example_iterator)
   \<and> Java_org_tron_leveldb_DBIterator_hasNext leveldb
        \<lparr>it_nativeHandle = Some (example_cursor\<lparr>it_current := None\<rparr>)\<rparr>
        = (Returned False, \<lparr>it_nativeHandle = Some (example_cursor\<lparr>it_current := None\<rparr>)\<rparr>)
   \<and> Java_org_tron_leveldb_DBIterator_hasPrev leveldb
        \<lparr>it_nativeHandle = Some (example_cursor\<lparr>it_current := None\<rparr>)\<rparr>
        = (Returned False, \<lparr>it_nativeHandle = Some (example_cursor\<lparr>it_current := None\<rparr>)\<rparr>)"
proof -
  have h1: "it_nativeHandle example_iterator = Some example_cursor"
    by (rule example_cursor_facts)
  have h2: "it_nativeHandle \<lparr>it_nativeHandle = Some (example_cursor\<lparr>it_current := None\<rparr>)\<rparr>
              = Some (example_cursor\<lparr>it_current := None\<rparr>)"
    by simp
  show ?thesis
    using hasNext_hasPrev_agree [OF h1, of leveldb] hasNext_hasPrev_agree [OF h2, of leveldb] h1
    by (simp add: leveldb_fields Iter_Valid_def example_cursor_facts)
qed

end
